theory Spec2Isabelle
  imports Main "HOL-Library.AList"
begin

section \<open>The context scope resolver of red/runtime/nodes/context/index.js\<close>

text \<open>
  The module keeps five variables: \<open>settings\<close>, \<open>contexts\<close> (scope id to scope
  object), \<open>globalContext\<close>, \<open>externalContexts\<close> (store name to backend instance) and
  \<open>hasExternalContext\<close>. The model passes them around as one record, together with
  the part of the JavaScript heap the module touches (the scope objects and their
  properties) and the list of calls the module has made into code it does not own
  (the backend instances, \<open>require\<close>, the plugin functions).

  Conventions of the embedding:
  \<^item> an object is a reference (a number); \<open>heap\<close> maps a reference to the own
    properties of the object;
  \<^item> \<open>contexts\<close> and \<open>externalContexts\<close> are plain objects used as dictionaries. They
    are modelled as association lists of their own properties in insertion order
    (the engine's habit of enumerating integer-like keys first is outside the model).
    For \<open>contexts\<close>, whose keys are the identifiers callers pass in, the two names
    that a plain object treats differently are modelled: assigning to \<open>__proto__\<close>
    creates no own property, and an own property \<open>hasOwnProperty\<close> hides the method
    of that name. Store names and configuration keys of these two names are outside
    the model;
  \<^item> a throw is a value \<open>Inl e\<close>; a promise is described by the calls whose results
    it waits for;
  \<^item> calls into backends have no effect on the module's own state and are recorded
    in \<open>trace\<close> in the order they are made.
\<close>

subsection \<open>Values, errors, calls\<close>

type_synonym ref = nat

text \<open>
  The arguments callers pass in the \<open>storage\<close> and \<open>callback\<close> positions. \<open>Other t k\<close>
  is any value that is neither \<open>undefined\<close>, a string nor a function, with
  truthiness \<open>t\<close> and property-key conversion \<open>k\<close> (\<open>null\<close> is \<open>Other False ''null''\<close>).
\<close>

datatype jsval = Undefined | Str string | Func nat | Other bool string

fun truthy :: "jsval \<Rightarrow> bool" where
  "truthy Undefined = False"
| "truthy (Str s) = (s \<noteq> [])"
| "truthy (Func f) = True"
| "truthy (Other t k) = t"

fun is_function :: "jsval \<Rightarrow> bool" where
  "is_function (Func f) = True"
| "is_function v = False"

datatype closure_kind = MGet | MSet | MKeys

text \<open>A property of a scope object: one of the three closures of \<open>createContext\<close>
  (with the scope id it closes over), a link to another object, or plain data.\<close>

datatype pval = Method closure_kind string | Ref ref | Data jsval

datatype error =
    ContextError string
  | CallbackError
  | TypeError
  | InvalidDefaultModule string
  | ModuleNotLoaded string
  | LoadingModule string
  | ModuleNotDefined string

datatype event =
    SetGlobalContext ref ref
  | Require string
  | Construct string
  | Open ref
  | Close ref
  | Clean ref "string list"
  | Delete ref string
  | CallGet ref string string jsval
  | CallSet ref string string jsval jsval
  | CallKeys ref string jsval

datatype promise = Resolved | Returned event | PromiseAll "event list"

subsection \<open>Settings and module state\<close>

text \<open>
  An entry of \<open>settings.contextStorage\<close> is a string (\<open>Alias\<close>) or an object
  (\<open>Decl\<close>) whose own property \<open>module\<close>, when present, is a module name or an
  already-required plugin function.
\<close>

datatype modspec = ModuleName string | ModuleFn nat

datatype entry = Alias string | Decl "modspec option"

record runtime_settings =
  functionGlobalContext :: "ref option"
  contextStorage :: "(string \<times> entry) list option"

record state =
  settings :: "runtime_settings option"
  contexts :: "(string \<times> ref) list"
  globalContext :: "ref option"
  externalContexts :: "(string \<times> ref option) list"
  hasExternalContext :: bool
  heap :: "ref \<Rightarrow> (string \<rightharpoonup> pval)"
  next_ref :: nat
  trace :: "event list"

text \<open>What the module cannot decide itself: whether \<open>require("./" + name)\<close> finds a
  plugin, and whether the plugin function throws when called for an entry.\<close>

record env =
  require_module :: "string \<Rightarrow> nat option"
  plugin_throws :: "nat \<Rightarrow> string \<Rightarrow> bool"

text \<open>The state right after the module is loaded (lines 21 to 25).\<close>

definition module_state :: state where
  "module_state =
     \<lparr>settings = None, contexts = [], globalContext = None,
      externalContexts = [], hasExternalContext = False,
      heap = (\<lambda>r. Map.empty), next_ref = 0, trace = []\<rparr>"

subsection \<open>Objects\<close>

text \<open>\<open>hasOwnProperty\<close> and property read on a dictionary object. A name can be an
  own property whose value is \<open>undefined\<close>: \<open>has_own\<close> holds and \<open>reg_get\<close> is \<open>None\<close>.\<close>

definition has_own :: "(string \<times> 'a) list \<Rightarrow> string \<Rightarrow> bool" where
  "has_own al k = (map_of al k \<noteq> None)"

definition reg_get :: "(string \<times> ref option) list \<Rightarrow> string \<Rightarrow> ref option" where
  "reg_get reg k = (case map_of reg k of Some (Some b) \<Rightarrow> Some b | _ \<Rightarrow> None)"

text \<open>A fresh object literal \<open>{}\<close>.\<close>

definition new_object :: "state \<Rightarrow> ref \<times> state" where
  "new_object st =
     (next_ref st,
      st\<lparr>heap := (heap st)(next_ref st := Map.empty), next_ref := Suc (next_ref st)\<rparr>)"

text \<open>A fresh backend instance, as \<open>memory()\<close> or \<open>plugin(config)\<close> returns it. Its
  own fields belong to the backend and are not modelled.\<close>

definition new_instance :: "state \<Rightarrow> ref \<times> state" where
  "new_instance st = (next_ref st, st\<lparr>next_ref := Suc (next_ref st)\<rparr>)"

definition set_prop :: "state \<Rightarrow> ref \<Rightarrow> string \<Rightarrow> pval \<Rightarrow> state" where
  "set_prop st obj k v = st\<lparr>heap := (heap st)(obj := (heap st obj)(k \<mapsto> v))\<rparr>"

definition emit :: "state \<Rightarrow> event list \<Rightarrow> state" where
  "emit st es = st\<lparr>trace := trace st @ es\<rparr>"

text \<open>Calling a method on each binding of \<open>externalContexts\<close> in turn
  (\<open>for (var plugin in externalContexts)\<close>): the calls made, and whether the loop
  ran to its end. It stops with a TypeError at a binding that is \<open>undefined\<close>.\<close>

fun call_all :: "(ref \<Rightarrow> event) \<Rightarrow> (string \<times> ref option) list \<Rightarrow> event list \<times> bool" where
  "call_all f [] = ([], True)"
| "call_all f ((n, None) # reg) = ([], False)"
| "call_all f ((n, Some b) # reg) = (case call_all f reg of (es, ok) \<Rightarrow> (f b # es, ok))"

subsection \<open>createContext (lines 139 to 192)\<close>

definition createContext :: "state \<Rightarrow> string \<Rightarrow> ref option \<Rightarrow> ref \<times> state" where
  "createContext st scope seed =
     (case (case seed of Some s \<Rightarrow> (s, st) | None \<Rightarrow> new_object st) of
        (obj, st1) \<Rightarrow>
          (obj, set_prop (set_prop (set_prop st1 obj ''get'' (Method MGet scope))
                            obj ''set'' (Method MSet scope))
                  obj ''keys'' (Method MKeys scope)))"

subsection \<open>getContextStorage (lines 124 to 137)\<close>

definition getContextStorage :: "state \<Rightarrow> string \<Rightarrow> error + ref option" where
  "getContextStorage st storage =
     (if has_own (externalContexts st) storage then Inr (reg_get (externalContexts st) storage)
      else if has_own (externalContexts st) ''default''
        then Inr (reg_get (externalContexts st) ''default'')
      else Inl (ContextError storage))"

text \<open>\<open>context.m(...)\<close>: a TypeError when \<open>context\<close> is \<open>undefined\<close>.\<close>

definition backend_call :: "ref option \<Rightarrow> (ref \<Rightarrow> event) \<Rightarrow> error + event" where
  "backend_call context f = (case context of None \<Rightarrow> Inl TypeError | Some b \<Rightarrow> Inr (f b))"

text \<open>Lines 148 to 151: a function in the \<open>storage\<close> position becomes the callback
  and the store name becomes \<open>"default"\<close>; any other value is used as the property
  key it converts to.\<close>

fun normalise :: "jsval \<Rightarrow> jsval \<Rightarrow> string \<times> jsval" where
  "normalise (Func f) callback = (''default'', Func f)"
| "normalise (Str s) callback = (s, callback)"
| "normalise Undefined callback = (''undefined'', callback)"
| "normalise (Other t k) callback = (k, callback)"

text \<open>The three closures, for the scope id they close over.\<close>

definition obj_get :: "state \<Rightarrow> string \<Rightarrow> string \<Rightarrow> jsval \<Rightarrow> jsval \<Rightarrow> error + event" where
  "obj_get st scope key storage callback =
     (if \<not> truthy storage \<and> \<not> truthy callback
      then backend_call (reg_get (externalContexts st) ''_'') (\<lambda>b. CallGet b scope key callback)
      else (case normalise storage callback of
        (storage', callback') \<Rightarrow>
          if \<not> is_function callback' then Inl CallbackError
          else (case getContextStorage st storage' of
                  Inl e \<Rightarrow> Inl e
                | Inr context \<Rightarrow> backend_call context (\<lambda>b. CallGet b scope key callback'))))"

definition obj_set ::
  "state \<Rightarrow> string \<Rightarrow> string \<Rightarrow> jsval \<Rightarrow> jsval \<Rightarrow> jsval \<Rightarrow> error + event" where
  "obj_set st scope key val storage callback =
     (if \<not> truthy storage \<and> \<not> truthy callback
      then backend_call (reg_get (externalContexts st) ''_'')
             (\<lambda>b. CallSet b scope key val callback)
      else (case normalise storage callback of
        (storage', callback') \<Rightarrow>
          if truthy callback' \<and> \<not> is_function callback' then Inl CallbackError
          else (case getContextStorage st storage' of
                  Inl e \<Rightarrow> Inl e
                | Inr context \<Rightarrow>
                    backend_call context (\<lambda>b. CallSet b scope key val callback'))))"

definition obj_keys :: "state \<Rightarrow> string \<Rightarrow> jsval \<Rightarrow> jsval \<Rightarrow> error + event" where
  "obj_keys st scope storage callback =
     (if \<not> truthy storage \<and> \<not> truthy callback
      then backend_call (reg_get (externalContexts st) ''_'') (\<lambda>b. CallKeys b scope callback)
      else (case normalise storage callback of
        (storage', callback') \<Rightarrow>
          if \<not> is_function callback' then Inl CallbackError
          else (case getContextStorage st storage' of
                  Inl e \<Rightarrow> Inl e
                | Inr context \<Rightarrow> backend_call context (\<lambda>b. CallKeys b scope callback'))))"

subsection \<open>init (lines 27 to 37)\<close>

definition init :: "state \<Rightarrow> runtime_settings \<Rightarrow> state" where
  "init st s =
     (case (case functionGlobalContext s of
              Some g \<Rightarrow> (g, st\<lparr>settings := Some s, externalContexts := []\<rparr>)
            | None \<Rightarrow> new_object (st\<lparr>settings := Some s, externalContexts := []\<rparr>)) of
        (seed, st1) \<Rightarrow>
          (case new_instance st1 of
             (mem, st2) \<Rightarrow>
               (case createContext
                       (emit (st2\<lparr>externalContexts := [(''_'', Some mem)]\<rparr>)
                          [SetGlobalContext mem seed])
                       ''global'' (Some seed) of
                  (g, st3) \<Rightarrow>
                    st3\<lparr>globalContext := Some g,
                        contexts := AList.update ''global'' g (contexts st3)\<rparr>)))"

subsection \<open>load (lines 39 to 114)\<close>

text \<open>Lines 62 to 85 for one entry that has a \<open>module\<close>. Preparing the config
  (\<open>copySettings\<close>) changes only the object handed to the plugin and is part of the
  \<open>Construct\<close> call.\<close>

definition instantiate :: "env \<Rightarrow> string \<Rightarrow> nat \<Rightarrow> state \<Rightarrow> (error + ref) \<times> state" where
  "instantiate env pluginName plugin st =
     (if plugin_throws env plugin pluginName
      then (Inl (LoadingModule pluginName), emit st [Construct pluginName])
      else (case new_instance (emit st [Construct pluginName]) of
              (inst, st1) \<Rightarrow> (Inr inst, st1)))"

definition construct :: "env \<Rightarrow> string \<Rightarrow> modspec \<Rightarrow> state \<Rightarrow> (error + ref) \<times> state" where
  "construct env pluginName m st =
     (case m of
        ModuleName name \<Rightarrow>
          (case require_module env name of
             None \<Rightarrow> (Inl (ModuleNotLoaded name), emit st [Require name])
           | Some plugin \<Rightarrow> instantiate env pluginName plugin (emit st [Require name]))
      | ModuleFn plugin \<Rightarrow> instantiate env pluginName plugin st)"

text \<open>The first loop (lines 46 to 91) over the entries in enumeration order. The
  last argument is \<open>defaultIsAlias\<close>, carrying the alias string \<open>plugins["default"]\<close>
  that line 103 reads again. \<open>plugins\<close> is the whole mapping, for line 56.\<close>

fun load_entries ::
  "env \<Rightarrow> (string \<times> entry) list \<Rightarrow> (string \<times> entry) list \<Rightarrow> state \<Rightarrow> string option
     \<Rightarrow> (error + string option) \<times> state" where
  "load_entries env plugins [] st dflt = (Inr dflt, st)"
| "load_entries env plugins ((pluginName, Alias target) # rest) st dflt =
     (if pluginName = ''_'' then load_entries env plugins rest st dflt
      else if pluginName = ''default'' then
        (if \<not> has_own plugins target then (Inl (InvalidDefaultModule target), st)
         else load_entries env plugins rest st (Some target))
      else (Inl (ModuleNotDefined pluginName), st))"
| "load_entries env plugins ((pluginName, Decl None) # rest) st dflt =
     (if pluginName = ''_'' then load_entries env plugins rest st dflt
      else (Inl (ModuleNotDefined pluginName), st))"
| "load_entries env plugins ((pluginName, Decl (Some m)) # rest) st dflt =
     (if pluginName = ''_'' then load_entries env plugins rest st dflt
      else (case construct env pluginName m st of
              (Inl e, st1) \<Rightarrow> (Inl e, st1)
            | (Inr inst, st1) \<Rightarrow>
                load_entries env plugins rest
                  (st1\<lparr>externalContexts :=
                         AList.update pluginName (Some inst) (externalContexts st1)\<rparr>)
                  dflt))"

text \<open>Lines 107 to 112, with the promises pushed so far.\<close>

definition load_finish :: "state \<Rightarrow> event list \<Rightarrow> (error + promise) \<times> state" where
  "load_finish st promises =
     (if promises = [] then
        (case reg_get (externalContexts st) ''_'' of
           None \<Rightarrow> (Inl TypeError, st)
         | Some mem \<Rightarrow> (Inr (PromiseAll [Open mem]), emit st [Open mem]))
      else (Inr (PromiseAll promises), st\<lparr>hasExternalContext := True\<rparr>))"

text \<open>Lines 93 to 104: open every registered backend, then bind the alias.\<close>

definition open_and_alias ::
  "state \<Rightarrow> string option \<Rightarrow> (error + promise) \<times> state" where
  "open_and_alias st dflt =
     (case call_all Open (externalContexts st) of
        (es, ok) \<Rightarrow>
          if \<not> ok then (Inl TypeError, emit st es)
          else (case dflt of
                  None \<Rightarrow> load_finish (emit st es) es
                | Some target \<Rightarrow>
                    load_finish
                      ((emit st es)\<lparr>externalContexts :=
                          AList.update ''default'' (reg_get (externalContexts st) target)
                            (externalContexts st)\<rparr>)
                      es))"

text \<open>The result is the rejection (\<open>Inl\<close>; a throw inside the promise's executor
  rejects too) or the promise \<open>load\<close> resolves with.\<close>

definition load :: "env \<Rightarrow> state \<Rightarrow> (error + promise) \<times> state" where
  "load env st =
     (case settings st of
        None \<Rightarrow> (Inl TypeError, st)
      | Some s \<Rightarrow>
          (case contextStorage s of
             None \<Rightarrow> load_finish st []
           | Some plugins \<Rightarrow>
               (case load_entries env plugins plugins st None of
                  (Inl e, st1) \<Rightarrow> (Inl e, st1)
                | (Inr dflt, st1) \<Rightarrow> open_and_alias st1 dflt)))"

subsection \<open>getContext, deleteContext, clean, close (lines 194 to 252)\<close>

definition attach_global :: "state \<Rightarrow> ref \<Rightarrow> state" where
  "attach_global st obj =
     (case globalContext st of None \<Rightarrow> st | Some g \<Rightarrow> set_prop st obj ''global'' (Ref g))"

text \<open>
  \<open>contexts\<close> is a plain object. \<open>contexts.hasOwnProperty(k)\<close> finds the method on
  \<open>Object.prototype\<close> unless a scope is cached under the name \<open>hasOwnProperty\<close>: then
  the property read gives that scope object and the call throws a TypeError.
  \<open>contexts[k] = v\<close> creates or overwrites the own property \<open>k\<close>, except for
  \<open>__proto__\<close>, where it replaces the prototype of \<open>contexts\<close> by \<open>v\<close> and creates no
  own property. (The prototype chain then runs through a scope object made by
  \<open>createContext\<close> without a seed, which has no \<open>hasOwnProperty\<close> of its own, so
  the method is still found.)
\<close>

definition shadowed :: "(string \<times> ref) list \<Rightarrow> bool" where
  "shadowed ctx = has_own ctx ''hasOwnProperty''"

definition ctx_store :: "(string \<times> ref) list \<Rightarrow> string \<Rightarrow> ref \<Rightarrow> (string \<times> ref) list" where
  "ctx_store ctx k v = (if k = ''__proto__'' then ctx else AList.update k v ctx)"

text \<open>\<open>flowId\<close> is optional, and the empty string is falsy like \<open>undefined\<close>. The
  result is the scope object, or the error thrown at line 199.\<close>

function getContext :: "state \<Rightarrow> string \<Rightarrow> string option \<Rightarrow> (error + ref) \<times> state" where
  "getContext st localId None =
     (if shadowed (contexts st) then (Inl TypeError, st)
      else (case map_of (contexts st) localId of
        Some c \<Rightarrow> (Inr c, st)
      | None \<Rightarrow>
          (case createContext st localId None of
             (newContext, st1) \<Rightarrow>
               (Inr newContext,
                (attach_global st1 newContext)
                  \<lparr>contexts :=
                     ctx_store (contexts (attach_global st1 newContext)) localId newContext\<rparr>))))"
| "getContext st localId (Some flowId) =
     (if flowId = [] then getContext st localId None
      else if shadowed (contexts st) then (Inl TypeError, st)
      else (case map_of (contexts st) (localId @ '':'' @ flowId) of
        Some c \<Rightarrow> (Inr c, st)
      | None \<Rightarrow>
          (case createContext st (localId @ '':'' @ flowId) None of
             (newContext, st1) \<Rightarrow>
               (case getContext st1 flowId None of
                  (Inl e, st2) \<Rightarrow> (Inl e, st2)
                | (Inr flow, st2) \<Rightarrow>
                    (Inr newContext,
                     (attach_global (set_prop st2 newContext ''flow'' (Ref flow)) newContext)
                       \<lparr>contexts :=
                          ctx_store
                            (contexts (attach_global (set_prop st2 newContext ''flow'' (Ref flow))
                               newContext))
                            (localId @ '':'' @ flowId) newContext\<rparr>)))))"
  by pat_completeness auto
termination
  by (relation "measure (\<lambda>(st, localId, flowId).
        case flowId of None \<Rightarrow> 0 | Some f \<Rightarrow> if f = [] then 1 else 2)") auto

definition context_id :: "string \<Rightarrow> string option \<Rightarrow> string" where
  "context_id localId flowId =
     (case flowId of
        None \<Rightarrow> localId
      | Some f \<Rightarrow> if f = [] then localId else localId @ '':'' @ f)"

definition deleteContext ::
  "state \<Rightarrow> string \<Rightarrow> string option \<Rightarrow> (error + promise) \<times> state" where
  "deleteContext st ident flowId =
     (if \<not> hasExternalContext st then
        (case reg_get (externalContexts st) ''_'' of
           None \<Rightarrow>
             (Inl TypeError,
              st\<lparr>contexts := AList.delete (context_id ident flowId) (contexts st)\<rparr>)
         | Some mem \<Rightarrow>
             (Inr (Returned (Delete mem (context_id ident flowId))),
              emit (st\<lparr>contexts := AList.delete (context_id ident flowId) (contexts st)\<rparr>)
                [Delete mem (context_id ident flowId)]))
      else (Inr Resolved, st))"

text \<open>\<open>id.split(":")[0]\<close>.\<close>

definition node_part :: "string \<Rightarrow> string" where
  "node_part ident = takeWhile (\<lambda>c. c \<noteq> CHR '':'') ident"

text \<open>
  The second loop of \<open>clean\<close> (lines 233 to 240) over the own properties of
  \<open>contexts\<close> as they were when the loop began; the last argument is \<open>contexts\<close> as
  it is now. \<open>allNodes\<close> stands for \<open>Object.keys(flowConfig.allNodes)\<close>, the own keys
  of that object, which is a plain object too: with an own key \<open>hasOwnProperty\<close>,
  \<open>flowConfig.allNodes.hasOwnProperty(...)\<close> throws. The result is the error thrown,
  if any, and \<open>contexts\<close> at that moment.
\<close>

fun sweep_loop ::
  "string list \<Rightarrow> (string \<times> ref) list \<Rightarrow> (string \<times> ref) list
     \<Rightarrow> error option \<times> (string \<times> ref) list" where
  "sweep_loop allNodes [] ctx = (None, ctx)"
| "sweep_loop allNodes ((ident, c) # rest) ctx =
     (if shadowed ctx then (Some TypeError, ctx)
      else if ident = ''global'' then sweep_loop allNodes rest ctx
      else if ''hasOwnProperty'' \<in> set allNodes then (Some TypeError, ctx)
      else if node_part ident \<in> set allNodes then sweep_loop allNodes rest ctx
      else sweep_loop allNodes rest (AList.delete ident ctx))"

definition clean :: "state \<Rightarrow> string list \<Rightarrow> (error + promise) \<times> state" where
  "clean st allNodes =
     (case call_all (\<lambda>b. Clean b allNodes) (externalContexts st) of
        (es, ok) \<Rightarrow>
          if \<not> ok then (Inl TypeError, emit st es)
          else (case sweep_loop allNodes (contexts st) (contexts st) of
                  (Some e, ctx) \<Rightarrow> (Inl e, (emit st es)\<lparr>contexts := ctx\<rparr>)
                | (None, ctx) \<Rightarrow> (Inr (PromiseAll es), (emit st es)\<lparr>contexts := ctx\<rparr>)))"

definition close :: "state \<Rightarrow> (error + promise) \<times> state" where
  "close st =
     (case call_all Close (externalContexts st) of
        (es, ok) \<Rightarrow>
          if \<not> ok then (Inl TypeError, emit st es) else (Inr (PromiseAll es), emit st es))"

subsection \<open>Concrete configurations\<close>

text \<open>An environment in which \<open>require\<close> finds the two built-in plugins and no
  plugin function throws.\<close>

definition env_builtin :: env where
  "env_builtin =
     \<lparr>require_module = (\<lambda>name. if name = ''memory'' then Some 0
                               else if name = ''localfilesystem'' then Some 1 else None),
      plugin_throws = (\<lambda>plugin pluginName. False)\<rparr>"

text \<open>No \<open>functionGlobalContext\<close> and no \<open>contextStorage\<close> in the settings; the
  runtime after \<open>init\<close> and \<open>load\<close>.\<close>

definition plain_settings :: runtime_settings where
  "plain_settings = \<lparr>functionGlobalContext = None, contextStorage = None\<rparr>"

definition running_plain :: state where
  "running_plain = snd (load env_builtin (init module_state plain_settings))"

text \<open>A file store under the name \<open>file\<close>, with \<open>default\<close> as an alias for it.\<close>

definition file_settings :: runtime_settings where
  "file_settings =
     \<lparr>functionGlobalContext = None,
      contextStorage = Some [(''file'', Decl (Some (ModuleName ''localfilesystem''))),
                             (''default'', Alias ''file'')]\<rparr>"

definition running_file :: state where
  "running_file = snd (load env_builtin (init module_state file_settings))"

text \<open>The same runtime after two nodes on two flows have asked for their scope.\<close>

definition two_nodes :: state where
  "two_nodes =
     snd (getContext (snd (getContext running_file ''n1'' (Some ''f1''))) ''n2'' (Some ''f2''))"

text \<open>The runtime without \<open>contextStorage\<close> after a scope was asked for under the
  name \<open>hasOwnProperty\<close>.\<close>

definition shadowed_cache :: state where
  "shadowed_cache = snd (getContext running_plain ''hasOwnProperty'' None)"

text \<open>A caller-supplied \<open>functionGlobalContext\<close> object (reference 0) that already
  has an entry \<open>count\<close> and an entry named \<open>get\<close>.\<close>

definition seeded_settings :: runtime_settings where
  "seeded_settings = \<lparr>functionGlobalContext = Some 0, contextStorage = None\<rparr>"

definition seeded_boot :: state where
  "seeded_boot =
     module_state
       \<lparr>heap := (\<lambda>r. Map.empty)
          (0 := [''count'' \<mapsto> Data (Other False ''0''), ''get'' \<mapsto> Data (Str ''mine'')]),
        next_ref := 1\<rparr>"

text \<open>A \<open>default\<close> alias for a store that is not declared.\<close>

definition broken_alias_settings :: runtime_settings where
  "broken_alias_settings =
     \<lparr>functionGlobalContext = None,
      contextStorage = Some [(''file'', Decl (Some (ModuleName ''localfilesystem''))),
                             (''default'', Alias ''nowhere'')]\<rparr>"

text \<open>A configuration that declares a store under the reserved name.\<close>

definition reserved_settings :: runtime_settings where
  "reserved_settings =
     \<lparr>functionGlobalContext = None,
      contextStorage = Some [(''_'', Decl (Some (ModuleName ''localfilesystem'')))]\<rparr>"


text \<open>\<open>contextStorage: { default: "default" }\<close> and \<open>contextStorage: {}\<close>.\<close>

definition self_alias_settings :: runtime_settings where
  "self_alias_settings =
     \<lparr>functionGlobalContext = None, contextStorage = Some [(''default'', Alias ''default'')]\<rparr>"

definition empty_storage_settings :: runtime_settings where
  "empty_storage_settings = \<lparr>functionGlobalContext = None, contextStorage = Some []\<rparr>"

text \<open>The runtime after \<open>init\<close> and \<open>load\<close> with \<open>contextStorage: {}\<close>, and node \<open>n1\<close>
  on flow \<open>f1\<close> having asked for its scope.\<close>

definition empty_storage_scoped :: state where
  "empty_storage_scoped =
     snd (getContext (snd (load env_builtin (init module_state empty_storage_settings)))
            ''n1'' (Some ''f1''))"

subsection \<open>Observations on the calls of load\<close>

fun is_open :: "event \<Rightarrow> bool" where
  "is_open (Open b) = True"
| "is_open e = False"

text \<open>The rejections of the first loop of \<open>load\<close>.\<close>

fun is_config_error :: "error + 'a \<Rightarrow> bool" where
  "is_config_error (Inl (InvalidDefaultModule s)) = True"
| "is_config_error (Inl (ModuleNotLoaded s)) = True"
| "is_config_error (Inl (LoadingModule s)) = True"
| "is_config_error (Inl (ModuleNotDefined s)) = True"
| "is_config_error r = False"

text \<open>The calls made between two states, and the shape "once a backend has been
  opened, only opens follow".\<close>

definition new_events :: "state \<Rightarrow> state \<Rightarrow> event list" where
  "new_events st st1 = drop (length (trace st)) (trace st1)"

definition opens_last :: "event list \<Rightarrow> bool" where
  "opens_last es = list_all is_open (dropWhile (\<lambda>e. \<not> is_open e) es)"

text \<open>An entry that cannot be set up: a \<open>default\<close> alias for a name that is not
  declared, a module name that \<open>require\<close> does not find, or a plugin function that
  throws.\<close>

fun bad_entry :: "env \<Rightarrow> (string \<times> entry) list \<Rightarrow> string \<times> entry \<Rightarrow> bool" where
  "bad_entry env plugins (n, Alias target) = (n = ''default'' \<and> \<not> has_own plugins target)"
| "bad_entry env plugins (n, Decl None) = False"
| "bad_entry env plugins (n, Decl (Some (ModuleName name))) =
     (if n = ''_'' then False
      else (case require_module env name of None \<Rightarrow> True | Some p \<Rightarrow> plugin_throws env p n))"
| "bad_entry env plugins (n, Decl (Some (ModuleFn p))) =
     (if n = ''_'' then False else plugin_throws env p n)"


text \<open>A configuration with an entry under the reserved name, a file store and the
  \<open>default\<close> alias for the file store; and the same without the reserved entry.\<close>

definition reserved_file_plugins :: "(string \<times> entry) list" where
  "reserved_file_plugins =
     [(''_'', Decl (Some (ModuleName ''memory''))),
      (''file'', Decl (Some (ModuleName ''localfilesystem''))),
      (''default'', Alias ''file'')]"

definition file_plugins :: "(string \<times> entry) list" where
  "file_plugins =
     [(''file'', Decl (Some (ModuleName ''localfilesystem''))), (''default'', Alias ''file'')]"

definition reserved_file_settings :: runtime_settings where
  "reserved_file_settings =
     \<lparr>functionGlobalContext = None, contextStorage = Some reserved_file_plugins\<rparr>"

subsection \<open>States in which no flow scope was taken from under a node scope\<close>

text \<open>Identifiers of nodes and flows as the runtime generates them contain no
  \<open>":"\<close>, so that \<open>localId + ":" + flowId\<close> can be taken apart again, and are not one
  of the two names a plain object treats differently.\<close>

definition colon_free :: "string \<Rightarrow> bool" where
  "colon_free s = (CHR '':'' \<notin> set s)"

definition plain_id :: "string \<Rightarrow> bool" where
  "plain_id s = (if s = ''__proto__'' then False
                 else if s = ''hasOwnProperty'' then False else colon_free s)"

text \<open>
  The states reached from one \<open>init\<close> on an empty cache (the cache of the freshly
  loaded module; no second \<open>init\<close>) by \<open>load\<close>, by \<open>getContext\<close> for such identifiers,
  by a \<open>deleteContext\<close> that does not name the flow of a cached node scope, and by a
  \<open>clean\<close> whose live identifiers contain, with every cached node scope they keep,
  the flow of that scope.
\<close>

inductive flows_kept :: "state \<Rightarrow> bool" where
  boot: "contexts st = [] \<Longrightarrow>
         (case functionGlobalContext s of None \<Rightarrow> True | Some g \<Rightarrow> g < next_ref st) \<Longrightarrow>
         flows_kept (init st s)"
| loaded: "flows_kept st \<Longrightarrow> flows_kept (snd (load env st))"
| scoped: "flows_kept st \<Longrightarrow> plain_id localId \<Longrightarrow>
           (case flowId of None \<Rightarrow> True | Some f \<Rightarrow> plain_id f) \<Longrightarrow>
           flows_kept (snd (getContext st localId flowId))"
| deleted: "flows_kept st \<Longrightarrow>
            (\<forall>n. map_of (contexts st) (n @ '':'' @ context_id ident flowId) = None) \<Longrightarrow>
            flows_kept (snd (deleteContext st ident flowId))"
| cleaned: "flows_kept st \<Longrightarrow>
            (\<forall>n f. colon_free n \<and> f \<noteq> [] \<and> map_of (contexts st) (n @ '':'' @ f) \<noteq> None \<and>
                   n \<in> set allNodes \<longrightarrow> f = ''global'' \<or> node_part f \<in> set allNodes) \<Longrightarrow>
            flows_kept (snd (clean st allNodes))"

text \<open>The invariant of these states: cached objects are allocated, the global scope
  exists, no scope is cached under \<open>hasOwnProperty\<close>, and every cached node scope
  links to the cached scope of its flow and to the global scope.\<close>

definition links_ok :: "state \<Rightarrow> bool" where
  "links_ok st =
     ((\<forall>k c. map_of (contexts st) k = Some c \<longrightarrow> c < next_ref st) \<and>
      (\<exists>g. globalContext st = Some g) \<and>
      \<not> shadowed (contexts st) \<and>
      (\<forall>n f c. colon_free n \<and> f \<noteq> [] \<and> map_of (contexts st) (n @ '':'' @ f) = Some c \<longrightarrow>
         (\<exists>fl. map_of (contexts st) f = Some fl \<and> heap st c ''flow'' = Some (Ref fl)) \<and>
         heap st c ''global'' = map_option Ref (globalContext st)))"

text \<open>Node \<open>n1\<close> on flow \<open>f1\<close> has asked for its scope; then a sweep with \<open>n1\<close> as
  the only live identifier.\<close>

definition swept_flow :: state where
  "swept_flow = snd (clean (snd (getContext running_plain ''n1'' (Some ''f1''))) [''n1''])"



text \<open>Node \<open>n1\<close> on flow \<open>f1\<close> has asked for its scope; then \<open>init\<close> runs again.\<close>

definition reinitialised :: state where
  "reinitialised = init (snd (getContext running_plain ''n1'' (Some ''f1''))) plain_settings"
section \<open>Properties\<close>

lemmas model_defs =
  module_state_def has_own_def reg_get_def new_object_def new_instance_def set_prop_def
  emit_def createContext_def getContextStorage_def backend_call_def obj_get_def obj_set_def
  obj_keys_def init_def instantiate_def construct_def load_finish_def open_and_alias_def
  load_def attach_global_def context_id_def deleteContext_def node_part_def shadowed_def
  ctx_store_def clean_def close_def

lemma running_plain_eval:
  "contexts running_plain = [(''global'', 0)]"
  "globalContext running_plain = Some 0"
  "externalContexts running_plain = [(''_'', Some 1)]"
  "hasExternalContext running_plain = False"
  "next_ref running_plain = 2"
  by (simp_all add: running_plain_def plain_settings_def env_builtin_def model_defs)

lemma running_file_eval:
  "contexts running_file = [(''global'', 0)]"
  "globalContext running_file = Some 0"
  "externalContexts running_file = [(''_'', Some 1), (''file'', Some 2), (''default'', Some 2)]"
  "hasExternalContext running_file = True"
  "next_ref running_file = 3"
  "trace running_file =
     [SetGlobalContext 1 0, Require ''localfilesystem'', Construct ''file'', Open 1, Open 2]"
  by (simp_all add: running_file_def file_settings_def env_builtin_def model_defs)

lemma two_nodes_eval:
  "contexts two_nodes =
     [(''global'', 0), (''f1'', 4), (''n1:f1'', 3), (''f2'', 6), (''n2:f2'', 5)]"
  "externalContexts two_nodes = [(''_'', Some 1), (''file'', Some 2), (''default'', Some 2)]"
  by (simp_all add: two_nodes_def running_file_eval createContext_def new_object_def
        set_prop_def attach_global_def shadowed_def has_own_def ctx_store_def
        split: prod.splits)

subsection \<open>The scope cache is only changed by the operations that own it\<close>

lemma contexts_createContext [simp]:
  "contexts (snd (createContext st scope seed)) = contexts st"
  by (simp add: createContext_def new_object_def set_prop_def split: option.splits)

lemma contexts_createContext_eq:
  "createContext st scope seed = (obj, st1) \<Longrightarrow> contexts st1 = contexts st"
  using contexts_createContext [of st scope seed] by simp

lemma contexts_attach_global [simp]: "contexts (attach_global st obj) = contexts st"
  by (simp add: attach_global_def set_prop_def split: option.splits)

lemma contexts_set_prop [simp]: "contexts (set_prop st obj k v) = contexts st"
  by (simp add: set_prop_def)

lemma contexts_emit [simp]: "contexts (emit st es) = contexts st"
  by (simp add: emit_def)

lemma contexts_construct:
  "construct env pluginName m st = (r, st1) \<Longrightarrow> contexts st1 = contexts st"
  by (auto simp: construct_def instantiate_def new_instance_def emit_def
      split: modspec.splits option.splits if_splits)

lemma contexts_load_entries:
  "contexts (snd (load_entries env plugins es st dflt)) = contexts st"
proof (induction env plugins es st dflt rule: load_entries.induct)
  case (4 env plugins pluginName m rest st dflt)
  show ?case
  proof (cases "construct env pluginName m st")
    case (Pair r st1)
    then show ?thesis using 4 contexts_construct[OF Pair]
      by (cases r) auto
  qed
qed auto

lemma contexts_load_finish: "contexts (snd (load_finish st ps)) = contexts st"
  by (simp add: load_finish_def emit_def split: option.splits)

lemma contexts_open_and_alias: "contexts (snd (open_and_alias st dflt)) = contexts st"
  by (simp add: open_and_alias_def contexts_load_finish split: prod.splits option.splits)

lemma contexts_load: "contexts (snd (load env st)) = contexts st"
proof (cases "settings st")
  case None
  then show ?thesis by (simp add: load_def)
next
  case (Some s)
  show ?thesis
  proof (cases "contextStorage s")
    case None
    with Some show ?thesis by (simp add: load_def contexts_load_finish)
  next
    case (Some plugins)
    obtain r st1 where l: "load_entries env plugins plugins st None = (r, st1)"
      by (cases "load_entries env plugins plugins st None")
    then have "contexts st1 = contexts st"
      using contexts_load_entries[of env plugins plugins st None] by simp
    with l Some \<open>settings st = Some s\<close> show ?thesis
      by (cases r) (simp_all add: load_def contexts_open_and_alias)
  qed
qed

subsection \<open>getContext and the cache\<close>

lemma has_own_update: "has_own (AList.update k v al) n = (if n = k then True else has_own al n)"
  by (simp add: has_own_def update_conv')

lemma has_own_ctx_store:
  "has_own (ctx_store ctx k v) n \<Longrightarrow> has_own ctx n \<or> n = k"
  by (auto simp: ctx_store_def has_own_update split: if_splits)

lemma map_of_ctx_store_keeps:
  "map_of ctx n = Some c \<Longrightarrow> map_of ctx k = None \<Longrightarrow> map_of (ctx_store ctx k v) n = Some c"
  by (auto simp: ctx_store_def update_conv')

lemma map_of_ctx_store_same:
  "k \<noteq> ''__proto__'' \<Longrightarrow> map_of (ctx_store ctx k v) k = Some v"
  by (simp add: ctx_store_def update_conv')

lemma getContext_shadowed:
  "shadowed (contexts st) \<Longrightarrow> getContext st localId flowId = (Inl TypeError, st)"
  by (cases flowId) simp_all

lemma getContext_hit:
  "\<not> shadowed (contexts st) \<Longrightarrow> map_of (contexts st) (context_id localId flowId) = Some c \<Longrightarrow>
     getContext st localId flowId = (Inr c, st)"
  by (cases flowId) (auto simp: context_id_def split: if_splits)

lemma getContext_noflow_returns:
  "\<not> shadowed (contexts st) \<Longrightarrow> \<exists>c. fst (getContext st localId None) = Inr c"
  by (simp split: option.splits prod.splits)

lemma getContext_noflow_caches:
  "getContext st localId None = (Inr c, st1) \<Longrightarrow> localId \<noteq> ''__proto__'' \<Longrightarrow>
     map_of (contexts st1) localId = Some c"
  by (auto simp: map_of_ctx_store_same split: if_splits option.splits prod.splits)

lemma getContext_noflow_keeps:
  assumes "map_of (contexts st) k = Some c"
  shows "map_of (contexts (snd (getContext st localId None))) k = Some c"
proof (cases "shadowed (contexts st) \<or> map_of (contexts st) localId \<noteq> None")
  case True
  with assms show ?thesis by auto
next
  case False
  obtain o1 st1 where c: "createContext st localId None = (o1, st1)"
    by (cases "createContext st localId None")
  have "contexts st1 = contexts st" using contexts_createContext_eq [OF c] .
  with assms False have "map_of (ctx_store (contexts st1) localId o1) k = Some c"
    by (simp add: map_of_ctx_store_keeps)
  with False c show ?thesis by simp
qed

lemma getContext_noflow_own:
  assumes "has_own (contexts (snd (getContext st localId None))) n"
  shows "has_own (contexts st) n \<or> n = localId"
proof (cases "shadowed (contexts st) \<or> map_of (contexts st) localId \<noteq> None")
  case True
  with assms show ?thesis by (auto split: if_splits)
next
  case False
  obtain o1 st1 where c: "createContext st localId None = (o1, st1)"
    by (cases "createContext st localId None")
  have e: "contexts st1 = contexts st" using contexts_createContext_eq [OF c] .
  from assms False c have "has_own (ctx_store (contexts st1) localId o1) n" by simp
  from has_own_ctx_store [OF this] e show ?thesis by simp
qed

declare getContext.simps [simp del]

lemma getContext_empty_flow: "getContext st localId (Some []) = getContext st localId None"
  by (simp add: getContext.simps(2))

lemma getContext_flow_miss:
  assumes "f \<noteq> []" "\<not> shadowed (contexts st)"
    "map_of (contexts st) (localId @ '':'' @ f) = None"
    "createContext st (localId @ '':'' @ f) None = (o1, st1)"
    "getContext st1 f None = (r, st2)"
  shows "getContext st localId (Some f) =
     (case r of
        Inl e \<Rightarrow> (Inl e, st2)
      | Inr fl \<Rightarrow>
          (Inr o1,
           (attach_global (set_prop st2 o1 ''flow'' (Ref fl)) o1)
             \<lparr>contexts := ctx_store (contexts st2) (localId @ '':'' @ f) o1\<rparr>))"
  using assms by (cases r) (simp_all add: getContext.simps(2))

lemma getContext_returns:
  assumes "\<not> shadowed (contexts st)"
  shows "\<exists>c. fst (getContext st localId flowId) = Inr c"
proof (cases flowId)
  case None
  with assms show ?thesis using getContext_noflow_returns by simp
next
  case (Some f)
  show ?thesis
  proof (cases "f = [] \<or> map_of (contexts st) (localId @ '':'' @ f) \<noteq> None")
    case True
    show ?thesis
    proof (cases "f = []")
      case True
      with Some assms show ?thesis
        using getContext_noflow_returns [of st localId] by (simp add: getContext_empty_flow)
    next
      case False
      with True obtain c where "map_of (contexts st) (context_id localId flowId) = Some c"
        using Some by (auto simp: context_id_def)
      from getContext_hit [OF assms this] show ?thesis by simp
    qed
  next
    case False
    obtain n st1 where c: "createContext st (localId @ '':'' @ f) None = (n, st1)"
      by (cases "createContext st (localId @ '':'' @ f) None")
    then have "\<not> shadowed (contexts st1)"
      using assms contexts_createContext_eq [OF c] by simp
    from getContext_noflow_returns [OF this, of f] obtain fl where
      "fst (getContext st1 f None) = Inr fl" by blast
    then obtain st2 where g: "getContext st1 f None = (Inr fl, st2)"
      by (cases "getContext st1 f None") simp
    from False have "f \<noteq> []" "map_of (contexts st) (localId @ '':'' @ f) = None" by auto
    from getContext_flow_miss [OF this(1) assms this(2) c g] Some show ?thesis by simp
  qed
qed

lemma getContext_caches:
  assumes "getContext st localId flowId = (Inr c, st1)"
    and "context_id localId flowId \<noteq> ''__proto__''"
  shows "map_of (contexts st1) (context_id localId flowId) = Some c"
proof (cases flowId)
  case None
  with assms show ?thesis using getContext_noflow_caches by (simp add: context_id_def)
next
  case (Some f)
  show ?thesis
  proof (cases "f = []")
    case True
    with Some assms show ?thesis
      using getContext_noflow_caches by (simp add: context_id_def getContext_empty_flow)
  next
    case False
    with Some assms show ?thesis
      by (auto simp: context_id_def map_of_ctx_store_same getContext.simps(2)
          split: if_splits option.splits prod.splits sum.splits)
  qed
qed

lemma getContext_keeps:
  assumes "map_of (contexts st) k = Some c"
  shows "map_of (contexts (snd (getContext st localId flowId))) k = Some c"
proof (cases flowId)
  case None
  with assms show ?thesis using getContext_noflow_keeps by simp
next
  case (Some f)
  show ?thesis
  proof (cases "f = []")
    case True
    with Some assms show ?thesis
      using getContext_noflow_keeps by (simp add: getContext_empty_flow)
  next
    case fne: False
    show ?thesis
    proof (cases "shadowed (contexts st)")
      case True
      with Some assms show ?thesis by (simp add: getContext_shadowed)
    next
      case ns: False
      show ?thesis
      proof (cases "map_of (contexts st) (localId @ '':'' @ f)")
        case (Some c0)
        with fne have "map_of (contexts st) (context_id localId (Some f)) = Some c0"
          by (simp add: context_id_def)
        from getContext_hit [OF ns this] \<open>flowId = Some f\<close> assms show ?thesis by simp
      next
        case None
        obtain o1 st1 where c: "createContext st (localId @ '':'' @ f) None = (o1, st1)"
          by (cases "createContext st (localId @ '':'' @ f) None")
        obtain r st2 where g: "getContext st1 f None = (r, st2)"
          by (cases "getContext st1 f None")
        have e: "contexts st1 = contexts st" using contexts_createContext_eq [OF c] .
        with assms have "map_of (contexts st1) k = Some c" by simp
        then have k2: "map_of (contexts st2) k = Some c"
          using g getContext_noflow_keeps [of st1 k c f] by simp
        note eq = getContext_flow_miss [OF fne ns None c g]
        show ?thesis
        proof (cases r)
          case (Inl x)
          with eq k2 \<open>flowId = Some f\<close> show ?thesis by simp
        next
          case (Inr fl)
          have "map_of (contexts st2) (localId @ '':'' @ f) = None"
          proof (rule ccontr)
            assume "map_of (contexts st2) (localId @ '':'' @ f) \<noteq> None"
            then have "has_own (contexts (snd (getContext st1 f None))) (localId @ '':'' @ f)"
              using g by (simp add: has_own_def)
            from getContext_noflow_own [OF this] None e
            show False by (auto simp: has_own_def)
          qed
          with eq k2 Inr \<open>flowId = Some f\<close> show ?thesis
            by (simp add: map_of_ctx_store_keeps)
        qed
      qed
    qed
  qed
qed

lemma getContext_own:
  assumes "has_own (contexts (snd (getContext st localId flowId))) n"
  shows "has_own (contexts st) n \<or> n = context_id localId flowId \<or> flowId = Some n"
proof (cases flowId)
  case None
  with assms show ?thesis using getContext_noflow_own by (auto simp: context_id_def)
next
  case (Some f)
  show ?thesis
  proof (cases "f = []")
    case True
    with Some assms show ?thesis
      using getContext_noflow_own [of st localId n]
      by (auto simp: context_id_def getContext_empty_flow)
  next
    case fne: False
    show ?thesis
    proof (cases "shadowed (contexts st)")
      case True
      with Some assms show ?thesis by (simp add: getContext_shadowed)
    next
      case ns: False
      show ?thesis
      proof (cases "map_of (contexts st) (localId @ '':'' @ f)")
        case (Some c0)
        with fne have "map_of (contexts st) (context_id localId (Some f)) = Some c0"
          by (simp add: context_id_def)
        from getContext_hit [OF ns this] \<open>flowId = Some f\<close> assms show ?thesis by simp
      next
        case None
        obtain o1 st1 where c: "createContext st (localId @ '':'' @ f) None = (o1, st1)"
          by (cases "createContext st (localId @ '':'' @ f) None")
        obtain r st2 where g: "getContext st1 f None = (r, st2)"
          by (cases "getContext st1 f None")
        have e: "contexts st1 = contexts st" using contexts_createContext_eq [OF c] .
        have inner: "has_own (contexts st2) n \<Longrightarrow> has_own (contexts st) n \<or> n = f"
          using getContext_noflow_own [of st1 f n] g e by simp
        note eq = getContext_flow_miss [OF fne ns None c g]
        show ?thesis
        proof (cases r)
          case (Inl x)
          with eq assms inner \<open>flowId = Some f\<close> show ?thesis by auto
        next
          case (Inr fl)
          with eq assms \<open>flowId = Some f\<close>
          have "has_own (ctx_store (contexts st2) (localId @ '':'' @ f) o1) n" by simp
          from has_own_ctx_store [OF this] inner fne \<open>flowId = Some f\<close> show ?thesis
            by (auto simp: context_id_def)
        qed
      qed
    qed
  qed
qed

lemma contexts_close: "contexts (snd (close st)) = contexts st"
  by (simp add: close_def split: prod.splits)

lemma contexts_init_other:
  "k \<noteq> ''global'' \<Longrightarrow> map_of (contexts (init st s)) k = map_of (contexts st) k"
  by (simp add: init_def new_object_def new_instance_def createContext_def set_prop_def
      update_conv' split: option.splits prod.splits)

text \<open>
  Claim C6, as the code has it. Take a scope identifier (a \<open>localId\<close> with an optional
  \<open>flowId\<close>) that is neither \<open>"__proto__"\<close> nor \<open>"hasOwnProperty"\<close>, with a \<open>flowId\<close> that
  is not \<open>"hasOwnProperty"\<close>, and a state in which no scope is cached under
  \<open>"hasOwnProperty"\<close>. Then \<open>getContext\<close> returns a scope object \<open>c\<close>, leaves it in the
  cache under the computed identifier and leaves no scope cached under
  \<open>"hasOwnProperty"\<close>; a second call right after returns \<open>c\<close> again and changes
  nothing; and in any later state that still holds this cache entry, and caches no
  scope under \<open>"hasOwnProperty"\<close>, \<open>getContext\<close> returns \<open>c\<close> with the state unchanged.
  Neither \<open>getContext\<close> for any identifier nor \<open>load\<close> nor \<open>close\<close> removes or replaces
  the entry, nor does \<open>init\<close> unless the identifier is \<open>"global"\<close>: it stays until
  \<open>deleteContext\<close> or \<open>clean\<close> take it out.
\<close>

theorem getContext_reference_stable:
  assumes "\<not> shadowed (contexts st)"
    and "context_id localId flowId \<noteq> ''__proto__''"
    and "context_id localId flowId \<noteq> ''hasOwnProperty''"
    and "flowId \<noteq> Some ''hasOwnProperty''"
  shows "\<exists>c st1. getContext st localId flowId = (Inr c, st1) \<and>
           \<not> shadowed (contexts st1) \<and>
           map_of (contexts st1) (context_id localId flowId) = Some c \<and>
           getContext st1 localId flowId = (Inr c, st1) \<and>
           (\<forall>s. map_of (contexts s) (context_id localId flowId) = Some c \<longrightarrow>
              (\<not> shadowed (contexts s) \<longrightarrow> getContext s localId flowId = (Inr c, s)) \<and>
              (\<forall>l f. map_of (contexts (snd (getContext s l f))) (context_id localId flowId)
                        = Some c) \<and>
              (\<forall>env. map_of (contexts (snd (load env s))) (context_id localId flowId)
                        = Some c) \<and>
              map_of (contexts (snd (close s))) (context_id localId flowId) = Some c \<and>
              (\<forall>r. context_id localId flowId \<noteq> ''global'' \<longrightarrow>
                 map_of (contexts (init s r)) (context_id localId flowId) = Some c))"
proof -
  from getContext_returns [OF assms(1), of localId flowId] obtain c where
    "fst (getContext st localId flowId) = Inr c" by blast
  then obtain st1 where g: "getContext st localId flowId = (Inr c, st1)"
    by (cases "getContext st localId flowId") simp
  have ns: "\<not> shadowed (contexts st1)"
  proof
    assume "shadowed (contexts st1)"
    then have "has_own (contexts (snd (getContext st localId flowId))) ''hasOwnProperty''"
      using g by (simp add: shadowed_def)
    from getContext_own [OF this] assms show False by (auto simp: shadowed_def)
  qed
  have cached: "map_of (contexts st1) (context_id localId flowId) = Some c"
    using getContext_caches [OF g assms(2)] .
  have again: "getContext st1 localId flowId = (Inr c, st1)"
    using getContext_hit [OF ns cached] .
  have later: "\<forall>s. map_of (contexts s) (context_id localId flowId) = Some c \<longrightarrow>
              (\<not> shadowed (contexts s) \<longrightarrow> getContext s localId flowId = (Inr c, s)) \<and>
              (\<forall>l f. map_of (contexts (snd (getContext s l f))) (context_id localId flowId)
                        = Some c) \<and>
              (\<forall>env. map_of (contexts (snd (load env s))) (context_id localId flowId)
                        = Some c) \<and>
              map_of (contexts (snd (close s))) (context_id localId flowId) = Some c \<and>
              (\<forall>r. context_id localId flowId \<noteq> ''global'' \<longrightarrow>
                 map_of (contexts (init s r)) (context_id localId flowId) = Some c)"
    by (simp add: getContext_hit getContext_keeps contexts_load contexts_close
        contexts_init_other)
  from g ns cached again later show ?thesis by blast
qed


lemma first_scope_eval:
  "fst (getContext running_plain ''n1'' (Some ''f1'')) = Inr 2"
  "heap (snd (getContext running_plain ''n1'' (Some ''f1''))) 2 ''flow'' = Some (Ref 3)"
  "heap (snd (getContext running_plain ''n1'' (Some ''f1''))) 2 ''global'' = Some (Ref 0)"
  "contexts (snd (getContext running_plain ''n1'' (Some ''f1'')))
     = [(''global'', 0), (''f1'', 3), (''n1:f1'', 2)]"
  "next_ref (snd (getContext running_plain ''n1'' (Some ''f1''))) = 4"
  "globalContext (snd (getContext running_plain ''n1'' (Some ''f1''))) = Some 0"
  "externalContexts (snd (getContext running_plain ''n1'' (Some ''f1''))) = [(''_'', Some 1)]"
  "hasExternalContext (snd (getContext running_plain ''n1'' (Some ''f1''))) = False"
  by (simp_all add: getContext.simps running_plain_eval createContext_def new_object_def
      set_prop_def attach_global_def shadowed_def has_own_def ctx_store_def
      split: prod.splits)

theorem getContext_reference_stable_witness:
  "\<not> shadowed (contexts running_plain) \<and>
   fst (getContext running_plain ''n1'' (Some ''f1'')) = Inr 2 \<and>
   map_of (contexts (snd (getContext running_plain ''n1'' (Some ''f1'')))) ''n1:f1'' = Some 2 \<and>
   getContext (snd (getContext running_plain ''n1'' (Some ''f1''))) ''n1'' (Some ''f1'')
     = (Inr 2, snd (getContext running_plain ''n1'' (Some ''f1'')))"
proof -
  have ns: "\<not> shadowed (contexts running_plain)"
    by (simp add: running_plain_eval shadowed_def has_own_def)
  have k: "context_id ''n1'' (Some ''f1'') = ''n1:f1''" by (simp add: context_id_def)
  from getContext_reference_stable [OF ns, of "''n1''" "Some ''f1''"]
  obtain c st1 where
    g: "getContext running_plain ''n1'' (Some ''f1'') = (Inr c, st1)" and
    m: "map_of (contexts st1) (context_id ''n1'' (Some ''f1'')) = Some c" and
    a: "getContext st1 ''n1'' (Some ''f1'') = (Inr c, st1)"
    unfolding k by auto
  from g first_scope_eval(1) have "c = 2" "st1 = snd (getContext running_plain ''n1'' (Some ''f1''))"
    by simp_all
  with ns m a k first_scope_eval(1) show ?thesis by simp
qed

text \<open>The claim as stated covers every identifier. For \<open>"__proto__"\<close> line 209 creates
  no own property, so the second call makes a new object; for \<open>"hasOwnProperty"\<close>
  the first call caches the scope and the second throws at line 199.\<close>

theorem getContext_reference_stable_counterexample:
  "fst (getContext running_plain ''__proto__'' None) = Inr 2 \<and>
   fst (getContext (snd (getContext running_plain ''__proto__'' None)) ''__proto__'' None)
     = Inr 3 \<and>
   fst (getContext running_plain ''hasOwnProperty'' None) = Inr 2 \<and>
   fst (getContext (snd (getContext running_plain ''hasOwnProperty'' None))
          ''hasOwnProperty'' None) = Inl TypeError"
  by (simp add: getContext.simps running_plain_eval createContext_def new_object_def
      set_prop_def attach_global_def shadowed_def has_own_def ctx_store_def
      split: prod.splits)
subsection \<open>The scope object factory\<close>

text \<open>
  Claim C10. For every id and every seed object, \<open>createContext\<close> returns the seed
  itself, not a copy: nothing is allocated, and the only change to the state is that
  the seed's own \<open>get\<close>, \<open>set\<close> and \<open>keys\<close> properties now hold the three closures
  for the id (whatever they held before). In particular, when the settings supply
  \<open>functionGlobalContext\<close>, the global scope made by \<open>init\<close> is that very object,
  changed in place, and cached under \<open>"global"\<close>.
\<close>

theorem createContext_mutates_seed:
  "createContext st scope (Some seed) =
     (seed,
      st\<lparr>heap := (heap st)(seed := (heap st seed)
          (''get'' \<mapsto> Method MGet scope, ''set'' \<mapsto> Method MSet scope,
           ''keys'' \<mapsto> Method MKeys scope))\<rparr>) \<and>
   globalContext (init st (s\<lparr>functionGlobalContext := Some g\<rparr>)) = Some g \<and>
   map_of (contexts (init st (s\<lparr>functionGlobalContext := Some g\<rparr>))) ''global'' = Some g \<and>
   heap (init st (s\<lparr>functionGlobalContext := Some g\<rparr>)) =
     (heap st)(g := (heap st g)
        (''get'' \<mapsto> Method MGet ''global'', ''set'' \<mapsto> Method MSet ''global'',
         ''keys'' \<mapsto> Method MKeys ''global''))"
  by (simp add: createContext_def set_prop_def init_def new_instance_def emit_def update_conv')

theorem createContext_mutates_seed_witness:
  "globalContext (init seeded_boot seeded_settings) = Some 0 \<and>
   heap (init seeded_boot seeded_settings) 0 ''count'' = Some (Data (Other False ''0'')) \<and>
   heap (init seeded_boot seeded_settings) 0 ''get'' = Some (Method MGet ''global'') \<and>
   next_ref (init seeded_boot seeded_settings) = 2"
  using createContext_mutates_seed [where st = seeded_boot and s = seeded_settings and g = 0]
  by (simp add: seeded_settings_def seeded_boot_def module_state_def init_def
      new_instance_def emit_def createContext_def set_prop_def)

subsection \<open>deleteContext\<close>

text \<open>What \<open>deleteContext\<close> tests is the mark \<open>hasExternalContext\<close>: when it is set,
  the call resolves at once and changes nothing; when it is not set, the cache entry
  of the computed identifier is removed and the promise of the fallback backend's
  \<open>delete\<close> for that identifier is returned.\<close>

lemma deleteContext_by_flag:
  "(hasExternalContext st \<longrightarrow> deleteContext st ident flowId = (Inr Resolved, st)) \<and>
   (\<not> hasExternalContext st \<and> reg_get (externalContexts st) ''_'' = Some mem \<longrightarrow>
      deleteContext st ident flowId =
        (Inr (Returned (Delete mem (context_id ident flowId))),
         st\<lparr>contexts := AList.delete (context_id ident flowId) (contexts st),
            trace := trace st @ [Delete mem (context_id ident flowId)]\<rparr>))"
  by (simp add: deleteContext_def emit_def)

lemma empty_storage_scoped_eval:
  "externalContexts empty_storage_scoped = [(''_'', Some 1)]"
  "hasExternalContext empty_storage_scoped = True"
  "contexts empty_storage_scoped = [(''global'', 0), (''f1'', 3), (''n1:f1'', 2)]"
  by (simp_all add: empty_storage_scoped_def empty_storage_settings_def env_builtin_def
      model_defs getContext.simps split: prod.splits)

text \<open>
  Claim C9, after \<open>init\<close> and \<open>load\<close> with \<open>contextStorage: {}\<close>. Only the fallback
  \<open>"_"\<close> is registered, so no external backend is active, and the scope of node \<open>n1\<close>
  on flow \<open>f1\<close> is cached. Because \<open>load\<close> has set \<open>hasExternalContext\<close> all the same,
  \<open>deleteContext("n1", "f1")\<close> resolves at once: the scope stays in the cache and
  the fallback's \<open>delete\<close> is not called.
\<close>

theorem deleteContext_noop_without_external:
  "externalContexts empty_storage_scoped = [(''_'', Some 1)] \<and>
   hasExternalContext empty_storage_scoped \<and>
   map_of (contexts empty_storage_scoped) ''n1:f1'' = Some 2 \<and>
   deleteContext empty_storage_scoped ''n1'' (Some ''f1'') = (Inr Resolved, empty_storage_scoped)"
  by (simp add: empty_storage_scoped_eval deleteContext_def)

subsection \<open>clean\<close>

lemma call_all_bound:
  "call_all f (map (\<lambda>(n, b). (n, Some b)) bs) = (map (\<lambda>(n, b). f b) bs, True)"
  by (induction bs) auto

lemma node_part_plain: "CHR '':'' \<notin> set n \<Longrightarrow> node_part n = n"
  by (auto simp: node_part_def)

lemma node_part_joined: "CHR '':'' \<notin> set n \<Longrightarrow> node_part (n @ '':'' @ f) = n"
  by (simp add: node_part_def takeWhile_append)

lemma shadowed_delete: "\<not> shadowed ctx \<Longrightarrow> \<not> shadowed (AList.delete k ctx)"
  by (simp add: shadowed_def has_own_def delete_conv')

lemma map_of_filter_key:
  "map_of (filter (\<lambda>kv. P (fst kv)) al) k = (if P k then map_of al k else None)"
  by (induction al) auto

text \<open>Without the two hazards the loop ends normally, having removed the visited
  keys that are neither \<open>"global"\<close> nor live.\<close>

lemma sweep_loop_plain:
  assumes "''hasOwnProperty'' \<notin> set allNodes"
  shows "\<not> shadowed ctx \<Longrightarrow>
     sweep_loop allNodes es ctx =
       (None, filter (\<lambda>kv. \<not> (fst kv \<in> fst ` set es \<and> fst kv \<noteq> ''global'' \<and>
                               node_part (fst kv) \<notin> set allNodes)) ctx)"
proof (induction es arbitrary: ctx)
  case Nil
  then show ?case by simp
next
  case (Cons e es)
  obtain ident c where e: "e = (ident, c)" by (cases e)
  show ?case
  proof (cases "ident = ''global'' \<or> node_part ident \<in> set allNodes")
    case True
    have "filter (\<lambda>kv. \<not> (fst kv \<in> fst ` set (e # es) \<and> fst kv \<noteq> ''global'' \<and>
                               node_part (fst kv) \<notin> set allNodes)) ctx
        = filter (\<lambda>kv. \<not> (fst kv \<in> fst ` set es \<and> fst kv \<noteq> ''global'' \<and>
                               node_part (fst kv) \<notin> set allNodes)) ctx"
      using True e by (intro filter_cong) auto
    with True e Cons assms show ?thesis by auto
  next
    case False
    have d: "AList.delete ident ctx = filter (\<lambda>kv. fst kv \<noteq> ident) ctx"
      unfolding AList.delete_eq by (intro filter_cong) auto
    have "filter (\<lambda>kv. \<not> (fst kv \<in> fst ` set (e # es) \<and> fst kv \<noteq> ''global'' \<and>
                               node_part (fst kv) \<notin> set allNodes)) ctx
        = filter (\<lambda>kv. \<not> (fst kv \<in> fst ` set es \<and> fst kv \<noteq> ''global'' \<and>
                               node_part (fst kv) \<notin> set allNodes))
            (AList.delete ident ctx)"
      unfolding d filter_filter using False e by (intro filter_cong) auto
    moreover from Cons.IH [OF shadowed_delete [OF Cons.prems], of ident]
    have "sweep_loop allNodes es (AList.delete ident ctx) =
       (None, filter (\<lambda>kv. \<not> (fst kv \<in> fst ` set es \<and> fst kv \<noteq> ''global'' \<and>
                               node_part (fst kv) \<notin> set allNodes)) (AList.delete ident ctx))" .
    ultimately show ?thesis using False e Cons.prems assms by simp
  qed
qed

lemma sweep_loop_all:
  assumes "''hasOwnProperty'' \<notin> set allNodes" "\<not> shadowed ctx"
  shows "sweep_loop allNodes ctx ctx =
       (None, filter (\<lambda>kv. fst kv = ''global'' \<or> node_part (fst kv) \<in> set allNodes) ctx)"
proof -
  have "filter (\<lambda>kv. \<not> (fst kv \<in> fst ` set ctx \<and> fst kv \<noteq> ''global'' \<and>
                               node_part (fst kv) \<notin> set allNodes)) ctx
      = filter (\<lambda>kv. fst kv = ''global'' \<or> node_part (fst kv) \<in> set allNodes) ctx"
    by (intro filter_cong) auto
  with sweep_loop_plain [OF assms, of ctx] show ?thesis by simp
qed

text \<open>With one of the two hazards the loop removes nothing.\<close>

lemma sweep_loop_hazard:
  "shadowed ctx \<or> ''hasOwnProperty'' \<in> set allNodes \<Longrightarrow>
     snd (sweep_loop allNodes es ctx) = ctx"
  by (induction allNodes es ctx rule: sweep_loop.induct) auto

text \<open>
  Claim C8, as the code has it. Take a state where every registered name is bound to
  a backend instance and no scope is cached under \<open>"hasOwnProperty"\<close>, and live
  identifiers \<open>liveNodeIds\<close> without the key \<open>"hasOwnProperty"\<close>. Then \<open>clean\<close> calls
  \<open>clean(liveNodeIds)\<close> once for every binding of the registry, in registry order, and
  returns the promise that waits for all of these calls. Of the scope cache it keeps
  \<open>"global"\<close> and every entry whose leading component is one of \<open>liveNodeIds\<close>, and
  removes every other entry; nothing else changes. The leading component of an
  identifier is the part before its first \<open>":"\<close>.
\<close>

theorem clean_sweeps:
  assumes "externalContexts st = map (\<lambda>(n, b). (n, Some b)) bs"
    and "\<not> shadowed (contexts st)"
    and "''hasOwnProperty'' \<notin> set allNodes"
  shows "clean st allNodes =
           (Inr (PromiseAll (map (\<lambda>(n, b). Clean b allNodes) bs)),
            st\<lparr>trace := trace st @ map (\<lambda>(n, b). Clean b allNodes) bs,
               contexts := filter (\<lambda>kv. fst kv = ''global'' \<or>
                                         node_part (fst kv) \<in> set allNodes) (contexts st)\<rparr>) \<and>
         (\<forall>ident. map_of (contexts (snd (clean st allNodes))) ident =
            (if ident = ''global'' \<or> node_part ident \<in> set allNodes
             then map_of (contexts st) ident else None)) \<and>
         (\<forall>n f. CHR '':'' \<notin> set n \<longrightarrow> node_part n = n \<and> node_part (n @ '':'' @ f) = n)"
proof -
  have c: "clean st allNodes =
           (Inr (PromiseAll (map (\<lambda>(n, b). Clean b allNodes) bs)),
            st\<lparr>trace := trace st @ map (\<lambda>(n, b). Clean b allNodes) bs,
               contexts := filter (\<lambda>kv. fst kv = ''global'' \<or>
                                         node_part (fst kv) \<in> set allNodes) (contexts st)\<rparr>)"
    using assms(1) sweep_loop_all [OF assms(3,2)]
    by (simp add: clean_def call_all_bound emit_def)
  have m: "\<forall>ident. map_of (contexts (snd (clean st allNodes))) ident =
            (if ident = ''global'' \<or> node_part ident \<in> set allNodes
             then map_of (contexts st) ident else None)"
    unfolding c
    using map_of_filter_key
      [of "\<lambda>k. k = ''global'' \<or> node_part k \<in> set allNodes" "contexts st"]
    by simp
  have p: "\<forall>n f. CHR '':'' \<notin> set n \<longrightarrow>
      node_part n = n \<and> node_part (n @ '':'' @ f) = n"
    using node_part_plain node_part_joined by blast
  from c m p show ?thesis by blast
qed

theorem clean_sweeps_witness:
  "\<not> shadowed (contexts two_nodes) \<and>
   fst (clean two_nodes [''n1'', ''f1'']) =
     Inr (PromiseAll
       [Clean 1 [''n1'', ''f1''], Clean 2 [''n1'', ''f1''], Clean 2 [''n1'', ''f1'']]) \<and>
   contexts (snd (clean two_nodes [''n1'', ''f1'']))
     = [(''global'', 0), (''f1'', 4), (''n1:f1'', 3)]"
proof -
  have h: "externalContexts two_nodes =
      map (\<lambda>(n, b). (n, Some b)) [(''_'', 1), (''file'', 2), (''default'', 2)]"
    by (simp add: two_nodes_eval)
  have ns: "\<not> shadowed (contexts two_nodes)"
    by (simp add: two_nodes_eval shadowed_def has_own_def)
  have a: "''hasOwnProperty'' \<notin> set [''n1'', ''f1'']" by simp
  show ?thesis
    using ns clean_sweeps [OF h ns a]
    by (simp add: two_nodes_eval node_part_def)
qed

lemma shadowed_cache_eval:
  "contexts shadowed_cache = [(''global'', 0), (''hasOwnProperty'', 2)]"
  "externalContexts shadowed_cache = [(''_'', Some 1)]"
  "trace shadowed_cache = [SetGlobalContext 1 0, Open 1]"
  by (simp_all add: shadowed_cache_def running_plain_def plain_settings_def env_builtin_def
      model_defs getContext.simps split: prod.splits)

text \<open>The claim as stated covers every state. With a scope cached under
  \<open>"hasOwnProperty"\<close> and no live identifier, the fallback's \<open>clean\<close> is called, then
  line 234 throws: that scope, which is not live, stays in the cache and no promise
  is returned.\<close>

theorem clean_sweeps_counterexample:
  "fst (clean shadowed_cache []) = Inl TypeError \<and>
   contexts (snd (clean shadowed_cache [])) = [(''global'', 0), (''hasOwnProperty'', 2)] \<and>
   trace (snd (clean shadowed_cache [])) = [SetGlobalContext 1 0, Open 1, Clean 1 []]"
  by (simp add: clean_def shadowed_cache_eval emit_def shadowed_def has_own_def)

text \<open>When a registered name is bound to nothing (the state the self-aliased
  \<open>default\<close> leaves), the loop of line 229 throws at that name: the backends before
  it have been asked to clean, and the scope cache is left as it was.\<close>

lemma clean_unbound_registry:
  "call_all (\<lambda>b. Clean b allNodes) (externalContexts st) = (es, False) \<Longrightarrow>
     clean st allNodes = (Inl TypeError, st\<lparr>trace := trace st @ es\<rparr>)"
  by (simp add: clean_def emit_def)
subsection \<open>load: construction before opening\<close>

lemma trace_construct:
  "construct env pluginName m st = (r, st1) \<Longrightarrow>
     \<exists>cs. trace st1 = trace st @ cs \<and> list_all (\<lambda>e. \<not> is_open e) cs"
  by (auto simp: construct_def instantiate_def new_instance_def emit_def
      split: modspec.splits option.splits if_splits)

lemma load_entries_config_error:
  "load_entries env plugins es st dflt = (Inl e, st1) \<Longrightarrow> is_config_error (Inl e :: error + 'a)"
proof (induction env plugins es st dflt rule: load_entries.induct)
  case (4 env plugins pluginName m rest st dflt)
  then show ?case
    by (auto simp: construct_def instantiate_def new_instance_def
        split: if_splits prod.splits sum.splits modspec.splits option.splits)
qed (auto split: if_splits)

lemma trace_load_entries:
  "\<exists>cs. trace (snd (load_entries env plugins es st dflt)) = trace st @ cs \<and>
        list_all (\<lambda>e. \<not> is_open e) cs"
proof (induction env plugins es st dflt rule: load_entries.induct)
  case (4 env plugins pluginName m rest st dflt)
  show ?case
  proof (cases "pluginName = ''_''")
    case True
    with 4 show ?thesis by simp
  next
    case False
    obtain r st1 where c: "construct env pluginName m st = (r, st1)"
      by (cases "construct env pluginName m st")
    from trace_construct [OF c] obtain cs where
      cs: "trace st1 = trace st @ cs" "list_all (\<lambda>e. \<not> is_open e) cs" by blast
    show ?thesis
    proof (cases r)
      case (Inl e)
      with False c cs show ?thesis by simp
    next
      case (Inr inst)
      from 4(2) [OF False c [symmetric] Inr] obtain ds where
        "trace (snd (load_entries env plugins rest
            (st1\<lparr>externalContexts := AList.update pluginName (Some inst) (externalContexts st1)\<rparr>)
            dflt)) = trace st1 @ ds" "list_all (\<lambda>e. \<not> is_open e) ds"
        by auto
      with False c cs Inr show ?thesis by simp
    qed
  qed
qed auto

lemma call_all_Open: "list_all is_open (fst (call_all Open reg))"
  by (induction Open reg rule: call_all.induct) (auto split: prod.splits)

lemma trace_load_finish:
  "\<exists>os. trace (snd (load_finish st ps)) = trace st @ os \<and> list_all is_open os \<and>
        \<not> is_config_error (fst (load_finish st ps))"
  by (simp add: load_finish_def emit_def split: option.splits)

lemma trace_open_and_alias:
  "\<exists>os. trace (snd (open_and_alias st dflt)) = trace st @ os \<and> list_all is_open os \<and>
        \<not> is_config_error (fst (open_and_alias st dflt))"
proof -
  obtain es ok where c: "call_all Open (externalContexts st) = (es, ok)"
    by (cases "call_all Open (externalContexts st)")
  have es: "list_all is_open es" using call_all_Open [of "externalContexts st"] c by simp
  show ?thesis
  proof (cases ok)
    case False
    with c es show ?thesis by (simp add: open_and_alias_def emit_def)
  next
    case True
    show ?thesis
    proof (cases dflt)
      case None
      from trace_load_finish [of "emit st es" es] obtain os where
        "trace (snd (load_finish (emit st es) es)) = trace (emit st es) @ os"
        "list_all is_open os" "\<not> is_config_error (fst (load_finish (emit st es) es))" by blast
      with c es True None show ?thesis by (simp add: open_and_alias_def emit_def)
    next
      case (Some target)
      let ?s = "(emit st es)\<lparr>externalContexts :=
                   AList.update ''default'' (reg_get (externalContexts st) target)
                     (externalContexts st)\<rparr>"
      from trace_load_finish [of ?s es] obtain os where
        "trace (snd (load_finish ?s es)) = trace ?s @ os"
        "list_all is_open os" "\<not> is_config_error (fst (load_finish ?s es))" by blast
      with c es True Some show ?thesis by (simp add: open_and_alias_def emit_def)
    qed
  qed
qed

lemma load_trace_shape:
  "\<exists>cs os. trace (snd (load env st)) = trace st @ cs @ os \<and>
     list_all (\<lambda>e. \<not> is_open e) cs \<and> list_all is_open os \<and>
     (is_config_error (fst (load env st)) \<longrightarrow> os = [])"
proof (cases "settings st")
  case None
  then show ?thesis by (simp add: load_def)
next
  case (Some s)
  note s = this
  show ?thesis
  proof (cases "contextStorage s")
    case None
    from trace_load_finish [of st "[]"] obtain os where
      "trace (snd (load_finish st [])) = trace st @ os" "list_all is_open os"
      "\<not> is_config_error (fst (load_finish st []))" by blast
    with s None have "trace (snd (load env st)) = trace st @ [] @ os \<and>
        list_all (\<lambda>e. \<not> is_open e) [] \<and> list_all is_open os \<and>
        (is_config_error (fst (load env st)) \<longrightarrow> os = [])"
      by (simp add: load_def)
    then show ?thesis by blast
  next
    case (Some plugins)
    obtain r st1 where l: "load_entries env plugins plugins st None = (r, st1)"
      by (cases "load_entries env plugins plugins st None")
    from trace_load_entries [of env plugins plugins st None] l obtain cs where
      cs: "trace st1 = trace st @ cs" "list_all (\<lambda>e. \<not> is_open e) cs" by auto
    show ?thesis
    proof (cases r)
      case (Inl e)
      with s Some l have "load env st = (Inl e, st1)" by (simp add: load_def)
      with cs have "trace (snd (load env st)) = trace st @ cs @ [] \<and>
          list_all (\<lambda>e. \<not> is_open e) cs \<and> list_all is_open [] \<and>
          (is_config_error (fst (load env st)) \<longrightarrow> [] = ([] :: event list))"
        by simp
      then show ?thesis by blast
    next
      case (Inr dflt)
      with s Some l have eq: "load env st = open_and_alias st1 dflt" by (simp add: load_def)
      from trace_open_and_alias [of st1 dflt] obtain os where
        "trace (snd (open_and_alias st1 dflt)) = trace st1 @ os" "list_all is_open os"
        "\<not> is_config_error (fst (open_and_alias st1 dflt))" by blast
      with eq cs have "trace (snd (load env st)) = trace st @ cs @ os \<and>
          list_all (\<lambda>e. \<not> is_open e) cs \<and> list_all is_open os \<and>
          (is_config_error (fst (load env st)) \<longrightarrow> os = [])"
        by simp
      then show ?thesis by blast
    qed
  qed
qed

lemma opens_last_append:
  "list_all (\<lambda>e. \<not> is_open e) cs \<Longrightarrow> list_all is_open os \<Longrightarrow> opens_last (cs @ os)"
proof -
  assume a: "list_all (\<lambda>e. \<not> is_open e) cs" and b: "list_all is_open os"
  have "dropWhile (\<lambda>e. \<not> is_open e) (cs @ os) = dropWhile (\<lambda>e. \<not> is_open e) os"
    using a by (simp add: list_all_iff)
  moreover have "list_all is_open (dropWhile (\<lambda>e. \<not> is_open e) os)"
    using b by (metis list_all_append takeWhile_dropWhile_id)
  ultimately show ?thesis by (simp add: opens_last_def)
qed

lemma construct_bad:
  "bad_entry env plugins (n, Decl (Some m)) \<Longrightarrow> \<exists>e st1. construct env n m st = (Inl e, st1)"
  by (cases m) (auto simp: construct_def instantiate_def split: option.splits if_splits)

lemma load_entries_bad:
  "list_ex (bad_entry env plugins) es \<Longrightarrow>
     \<exists>e st1. load_entries env plugins es st dflt = (Inl e, st1)"
proof (induction env plugins es st dflt rule: load_entries.induct)
  case (4 env plugins pluginName m rest st dflt)
  show ?case
  proof (cases "pluginName = ''_''")
    case True
    with 4 show ?thesis by (cases m) auto
  next
    case False
    obtain r st1 where c: "construct env pluginName m st = (r, st1)"
      by (cases "construct env pluginName m st")
    show ?thesis
    proof (cases r)
      case (Inl e)
      with False c show ?thesis by simp
    next
      case (Inr inst)
      with c have "\<not> bad_entry env plugins (pluginName, Decl (Some m))"
        using construct_bad [of env plugins pluginName m st] by auto
      with 4(3) have "list_ex (bad_entry env plugins) rest" by simp
      from 4(2) [OF False c [symmetric] Inr this] False c Inr show ?thesis by simp
    qed
  qed
qed auto

lemma load_bad:
  assumes "settings st = Some s" "contextStorage s = Some plugins"
    "list_ex (bad_entry env plugins) plugins"
  shows "is_config_error (fst (load env st))"
proof -
  from load_entries_bad [OF assms(3), where st = st and dflt = None] obtain e st1 where
    l: "load_entries env plugins plugins st None = (Inl e, st1)" by blast
  then have "is_config_error (Inl e :: error + promise)" by (rule load_entries_config_error)
  with l assms show ?thesis by (simp add: load_def)
qed

text \<open>
  Claim C5. \<open>load\<close> only adds to the calls made so far, and among the calls it adds
  every \<open>open()\<close> comes after everything else: once one backend has been opened,
  no \<open>require\<close> and no plugin construction follows, so every configured entry has
  been checked and constructed before the first \<open>open()\<close>. When \<open>load\<close> rejects
  with one of the errors of its first loop, it has called no \<open>open()\<close> at all; and
  it does reject so whenever the \<open>default\<close> alias names an undeclared backend, a
  module cannot be located, or a construction throws.
\<close>

theorem load_opens_after_construction:
  "take (length (trace st)) (trace (snd (load env st))) = trace st \<and>
   opens_last (new_events st (snd (load env st))) \<and>
   (is_config_error (fst (load env st)) \<longrightarrow>
      list_all (\<lambda>e. \<not> is_open e) (new_events st (snd (load env st)))) \<and>
   (settings st = Some s \<and> contextStorage s = Some plugins \<and>
    list_ex (bad_entry env plugins) plugins \<longrightarrow>
      is_config_error (fst (load env st)))"
proof -
  from load_trace_shape [of env st] obtain cs os where
    t: "trace (snd (load env st)) = trace st @ cs @ os" and
    cs: "list_all (\<lambda>e. \<not> is_open e) cs" and os: "list_all is_open os" and
    e: "is_config_error (fst (load env st)) \<longrightarrow> os = []" by blast
  have n: "new_events st (snd (load env st)) = cs @ os" using t by (simp add: new_events_def)
  have "take (length (trace st)) (trace (snd (load env st))) = trace st \<and>
   opens_last (new_events st (snd (load env st))) \<and>
   (is_config_error (fst (load env st)) \<longrightarrow>
      list_all (\<lambda>e. \<not> is_open e) (new_events st (snd (load env st))))"
    using t n cs e opens_last_append [OF cs os] by auto
  then show ?thesis using load_bad [of st s plugins env] by blast
qed

theorem load_opens_after_construction_witness:
  "settings (init module_state broken_alias_settings) = Some broken_alias_settings \<and>
   list_ex (bad_entry env_builtin
       [(''file'', Decl (Some (ModuleName ''localfilesystem''))), (''default'', Alias ''nowhere'')])
     [(''file'', Decl (Some (ModuleName ''localfilesystem''))), (''default'', Alias ''nowhere'')] \<and>
   fst (load env_builtin (init module_state broken_alias_settings))
     = Inl (InvalidDefaultModule ''nowhere'') \<and>
   new_events (init module_state broken_alias_settings)
     (snd (load env_builtin (init module_state broken_alias_settings)))
     = [Require ''localfilesystem'', Construct ''file''] \<and>
   is_config_error (fst (load env_builtin (init module_state broken_alias_settings))) \<and>
   list_all (\<lambda>e. \<not> is_open e)
     (new_events (init module_state broken_alias_settings)
        (snd (load env_builtin (init module_state broken_alias_settings))))"
proof -
  have s: "settings (init module_state broken_alias_settings) = Some broken_alias_settings"
    by (simp add: model_defs split: option.splits)
  have c: "contextStorage broken_alias_settings =
      Some [(''file'', Decl (Some (ModuleName ''localfilesystem''))),
            (''default'', Alias ''nowhere'')]"
    by (simp add: broken_alias_settings_def)
  have b: "list_ex (bad_entry env_builtin
       [(''file'', Decl (Some (ModuleName ''localfilesystem''))), (''default'', Alias ''nowhere'')])
     [(''file'', Decl (Some (ModuleName ''localfilesystem''))), (''default'', Alias ''nowhere'')]"
    by (simp add: env_builtin_def has_own_def)
  have r: "fst (load env_builtin (init module_state broken_alias_settings))
     = Inl (InvalidDefaultModule ''nowhere'')"
    by (simp add: broken_alias_settings_def env_builtin_def model_defs)
  have n: "new_events (init module_state broken_alias_settings)
     (snd (load env_builtin (init module_state broken_alias_settings)))
     = [Require ''localfilesystem'', Construct ''file'']"
    by (simp add: new_events_def broken_alias_settings_def env_builtin_def model_defs)
  from s c b load_opens_after_construction
      [of "init module_state broken_alias_settings" env_builtin broken_alias_settings
          "[(''file'', Decl (Some (ModuleName ''localfilesystem''))),
            (''default'', Alias ''nowhere'')]"]
  have "is_config_error (fst (load env_builtin (init module_state broken_alias_settings))) \<and>
   list_all (\<lambda>e. \<not> is_open e)
     (new_events (init module_state broken_alias_settings)
        (snd (load env_builtin (init module_state broken_alias_settings))))"
    by blast
  with s b r n show ?thesis by simp
qed

subsection \<open>load: the reserved name\<close>

lemma registry_construct:
  "construct env pluginName m st = (r, st1) \<Longrightarrow> externalContexts st1 = externalContexts st"
  by (auto simp: construct_def instantiate_def new_instance_def emit_def
      split: modspec.splits option.splits if_splits)

lemma fallback_load_entries:
  "map_of (externalContexts (snd (load_entries env plugins es st dflt))) ''_''
     = map_of (externalContexts st) ''_''"
proof (induction env plugins es st dflt rule: load_entries.induct)
  case (4 env plugins pluginName m rest st dflt)
  show ?case
  proof (cases "construct env pluginName m st")
    case (Pair r st1)
    then show ?thesis using 4 registry_construct [OF Pair]
      by (cases r) (auto simp: update_conv')
  qed
qed auto

lemma registry_load_finish:
  "externalContexts (snd (load_finish st ps)) = externalContexts st"
  by (simp add: load_finish_def emit_def split: option.splits)

lemma fallback_open_and_alias:
  "map_of (externalContexts (snd (open_and_alias st dflt))) ''_''
     = map_of (externalContexts st) ''_''"
  by (simp add: open_and_alias_def registry_load_finish emit_def update_conv'
      split: prod.splits option.splits)

lemma fallback_load:
  "map_of (externalContexts (snd (load env st))) ''_'' = map_of (externalContexts st) ''_''"
proof (cases "settings st")
  case None
  then show ?thesis by (simp add: load_def)
next
  case (Some s)
  note s = this
  show ?thesis
  proof (cases "contextStorage s")
    case None
    with s show ?thesis by (simp add: load_def registry_load_finish)
  next
    case (Some plugins)
    obtain r st1 where l: "load_entries env plugins plugins st None = (r, st1)"
      by (cases "load_entries env plugins plugins st None")
    then have "map_of (externalContexts st1) ''_'' = map_of (externalContexts st) ''_''"
      using fallback_load_entries [of env plugins plugins st None] by simp
    with l Some s show ?thesis
      by (cases r) (simp_all add: load_def fallback_open_and_alias)
  qed
qed

lemma load_entries_skips_reserved:
  "load_entries env plugins es st dflt
     = load_entries env plugins (filter (\<lambda>ne. fst ne \<noteq> ''_'') es) st dflt"
proof (induction env plugins es st dflt rule: load_entries.induct)
  case (4 env plugins pluginName m rest st dflt)
  then show ?case
    by (cases "construct env pluginName m st") (auto split: sum.splits)
qed auto

lemma has_own_without_reserved:
  "t \<noteq> ''_'' \<Longrightarrow> has_own (filter (\<lambda>ne. fst ne \<noteq> ''_'') plugins) t = has_own plugins t"
  using map_of_filter_key [of "\<lambda>k. k \<noteq> ''_''" plugins t] by (simp add: has_own_def)

lemma load_entries_check_cong:
  "\<forall>t. (''default'', Alias t) \<in> set es \<longrightarrow> has_own plugins t = has_own plugins2 t \<Longrightarrow>
     load_entries env plugins es st dflt = load_entries env plugins2 es st dflt"
proof (induction env plugins es st dflt rule: load_entries.induct)
  case (4 env plugins pluginName m rest st dflt)
  then show ?case
    by (cases "construct env pluginName m st") (auto split: sum.splits)
qed auto

lemma construct_not_reserved:
  "construct env pluginName m st = (r, st1) \<Longrightarrow> pluginName \<noteq> ''_'' \<Longrightarrow>
     Construct ''_'' \<in> set (trace st1) \<Longrightarrow> Construct ''_'' \<in> set (trace st)"
  by (auto simp: construct_def instantiate_def new_instance_def emit_def
      split: modspec.splits option.splits if_splits)

lemma load_entries_not_reserved:
  "Construct ''_'' \<in> set (trace (snd (load_entries env plugins es st dflt))) \<Longrightarrow>
     Construct ''_'' \<in> set (trace st)"
proof (induction env plugins es st dflt rule: load_entries.induct)
  case (4 env plugins pluginName m rest st dflt)
  show ?case
  proof (cases "pluginName = ''_''")
    case True
    with 4 show ?thesis by simp
  next
    case False
    obtain r st1 where c: "construct env pluginName m st = (r, st1)"
      by (cases "construct env pluginName m st")
    show ?thesis
    proof (cases r)
      case (Inl e)
      with False c 4(3) construct_not_reserved [OF c False] show ?thesis by simp
    next
      case (Inr inst)
      with False c 4(3) 4(2) [OF False c [symmetric] Inr]
      have "Construct ''_'' \<in> set (trace st1)" by simp
      with construct_not_reserved [OF c False] show ?thesis by simp
    qed
  qed
qed (auto split: if_splits)

lemma opens_not_reserved:
  "trace st1 = trace st @ os \<Longrightarrow> list_all is_open os \<Longrightarrow>
     Construct ''_'' \<in> set (trace st1) \<Longrightarrow> Construct ''_'' \<in> set (trace st)"
  by (auto simp: list_all_iff)

lemma load_not_reserved:
  assumes "Construct ''_'' \<in> set (trace (snd (load env st)))"
  shows "Construct ''_'' \<in> set (trace st)"
proof (cases "settings st")
  case None
  with assms show ?thesis by (simp add: load_def)
next
  case (Some s)
  note s = this
  show ?thesis
  proof (cases "contextStorage s")
    case None
    from trace_load_finish [of st "[]"] obtain os where
      "trace (snd (load_finish st [])) = trace st @ os" "list_all is_open os" by blast
    from opens_not_reserved [OF this] assms s None show ?thesis by (simp add: load_def)
  next
    case (Some plugins)
    obtain r st1 where l: "load_entries env plugins plugins st None = (r, st1)"
      by (cases "load_entries env plugins plugins st None")
    have before: "Construct ''_'' \<in> set (trace st1) \<Longrightarrow> Construct ''_'' \<in> set (trace st)"
      using load_entries_not_reserved [of env plugins plugins st None] l by simp
    show ?thesis
    proof (cases r)
      case (Inl e)
      with s Some l assms before show ?thesis by (simp add: load_def)
    next
      case (Inr dflt)
      from trace_open_and_alias [of st1 dflt] obtain os where
        "trace (snd (open_and_alias st1 dflt)) = trace st1 @ os" "list_all is_open os" by blast
      from opens_not_reserved [OF this] assms s Some l Inr before show ?thesis
        by (simp add: load_def)
    qed
  qed
qed

text \<open>
  Claim C4, as the code has it. A configuration entry named \<open>"_"\<close> is never
  constructed or registered and raises no error. The first loop of \<open>load\<close> passes
  over it (lines 48 to 51) and treats the other entries as it would without it, the
  name \<open>"_"\<close> still counting as declared in the check of the \<open>default\<close> alias at line
  56; so when \<open>default\<close> is not an alias for \<open>"_"\<close>, the loop does exactly what it does
  on the configuration without the entry. \<open>load\<close> never calls a plugin function for
  the name \<open>"_"\<close> and leaves the binding of \<open>"_"\<close> as it was.
\<close>

theorem reserved_entry_skipped:
  "load_entries env plugins es st dflt
     = load_entries env plugins (filter (\<lambda>ne. fst ne \<noteq> ''_'') es) st dflt \<and>
   ((\<forall>t. (''default'', Alias t) \<in> set es \<longrightarrow> t \<noteq> ''_'') \<longrightarrow>
      load_entries env plugins es st dflt
        = load_entries env (filter (\<lambda>ne. fst ne \<noteq> ''_'') plugins)
            (filter (\<lambda>ne. fst ne \<noteq> ''_'') es) st dflt) \<and>
   map_of (externalContexts (snd (load env st))) ''_'' = map_of (externalContexts st) ''_'' \<and>
   (Construct ''_'' \<notin> set (trace st) \<longrightarrow> Construct ''_'' \<notin> set (trace (snd (load env st))))"
proof -
  let ?f = "filter (\<lambda>ne. fst ne \<noteq> ''_'')"
  have a: "load_entries env plugins es st dflt = load_entries env plugins (?f es) st dflt"
    by (rule load_entries_skips_reserved)
  have b: "(\<forall>t. (''default'', Alias t) \<in> set es \<longrightarrow> t \<noteq> ''_'') \<longrightarrow>
      load_entries env plugins es st dflt = load_entries env (?f plugins) (?f es) st dflt"
  proof
    assume h: "\<forall>t. (''default'', Alias t) \<in> set es \<longrightarrow> t \<noteq> ''_''"
    have "\<forall>t. (''default'', Alias t) \<in> set (?f es) \<longrightarrow>
        has_own plugins t = has_own (?f plugins) t"
      using h by (auto simp: has_own_without_reserved)
    from load_entries_check_cong [OF this] a
    show "load_entries env plugins es st dflt = load_entries env (?f plugins) (?f es) st dflt"
      by simp
  qed
  from a b fallback_load [of env st] load_not_reserved [of env st] show ?thesis by blast
qed

theorem reserved_entry_skipped_witness:
  "load_entries env_builtin reserved_file_plugins reserved_file_plugins
       (init module_state reserved_file_settings) None
     = load_entries env_builtin file_plugins file_plugins
         (init module_state reserved_file_settings) None \<and>
   fst (load_entries env_builtin file_plugins file_plugins
          (init module_state reserved_file_settings) None) = Inr (Some ''file'') \<and>
   externalContexts (snd (load env_builtin (init module_state reserved_file_settings)))
     = [(''_'', Some 1), (''file'', Some 2), (''default'', Some 2)] \<and>
   Construct ''_'' \<notin> set (trace (snd (load env_builtin (init module_state reserved_file_settings))))"
proof -
  have f: "filter (\<lambda>ne. fst ne \<noteq> ''_'') reserved_file_plugins = file_plugins"
    by (simp add: reserved_file_plugins_def file_plugins_def)
  have h: "\<forall>t. (''default'', Alias t) \<in> set reserved_file_plugins \<longrightarrow> t \<noteq> ''_''"
    by (simp add: reserved_file_plugins_def)
  have t: "Construct ''_'' \<notin> set (trace (init module_state reserved_file_settings))"
    by (simp add: reserved_file_settings_def model_defs)
  have e: "fst (load_entries env_builtin file_plugins file_plugins
          (init module_state reserved_file_settings) None) = Inr (Some ''file'')"
    "externalContexts (snd (load env_builtin (init module_state reserved_file_settings)))
     = [(''_'', Some 1), (''file'', Some 2), (''default'', Some 2)]"
    by (simp_all add: reserved_file_settings_def reserved_file_plugins_def file_plugins_def
        env_builtin_def model_defs)
  note r = reserved_entry_skipped [of env_builtin reserved_file_plugins reserved_file_plugins
      "init module_state reserved_file_settings" None]
  from r h have "load_entries env_builtin reserved_file_plugins reserved_file_plugins
       (init module_state reserved_file_settings) None
     = load_entries env_builtin file_plugins file_plugins
         (init module_state reserved_file_settings) None"
    unfolding f by blast
  moreover from r t have "Construct ''_'' \<notin>
      set (trace (snd (load env_builtin (init module_state reserved_file_settings))))"
    by blast
  ultimately show ?thesis using e by blast
qed

text \<open>The claim as stated asks for a rejection. With an entry \<open>"_"\<close> as the only
  entry, \<open>load\<close> resolves: nothing is required or constructed, and the fallback is
  opened.\<close>

theorem reserved_entry_counterexample:
  "fst (load env_builtin (init module_state reserved_settings)) = Inr (PromiseAll [Open 1]) \<and>
   externalContexts (snd (load env_builtin (init module_state reserved_settings)))
     = [(''_'', Some 1)] \<and>
   trace (snd (load env_builtin (init module_state reserved_settings)))
     = [SetGlobalContext 1 0, Open 1]"
  by (simp add: reserved_settings_def env_builtin_def model_defs)


text \<open>The name counts as declared in the check of line 56: with the entry, an alias
  \<open>default: "_"\<close> is accepted and bound to the fallback instance; without it, the
  same alias is rejected.\<close>

lemma reserved_name_counts_as_declared:
  "fst (load env_builtin (init module_state
      \<lparr>functionGlobalContext = None,
       contextStorage = Some [(''_'', Decl None), (''default'', Alias ''_'')]\<rparr>))
     = Inr (PromiseAll [Open 1]) \<and>
   externalContexts (snd (load env_builtin (init module_state
      \<lparr>functionGlobalContext = None,
       contextStorage = Some [(''_'', Decl None), (''default'', Alias ''_'')]\<rparr>)))
     = [(''_'', Some 1), (''default'', Some 1)] \<and>
   fst (load env_builtin (init module_state
      \<lparr>functionGlobalContext = None, contextStorage = Some [(''default'', Alias ''_'')]\<rparr>))
     = Inl (InvalidDefaultModule ''_'')"
  by (simp add: env_builtin_def model_defs)

subsection \<open>The scope operations and the backend they reach\<close>

text \<open>
  Claim C1, as the code has it. When the caller passes neither a store name nor a
  callback (both arguments falsy), \<open>get\<close>, \<open>set\<close> and \<open>keys\<close> of every scope call the
  fallback backend registered under \<open>"_"\<close>. When the caller passes a function in the
  place of the store name, that function is the callback and the store name is
  \<open>"default"\<close>: the call goes to the backend bound to \<open>"default"\<close>, and when no
  \<open>"default"\<close> is registered it throws a ContextError.
\<close>

theorem scope_dispatch:
  "(\<not> truthy storage \<and> \<not> truthy callback \<and> reg_get (externalContexts st) ''_'' = Some mem \<longrightarrow>
      obj_get st scope key storage callback = Inr (CallGet mem scope key callback) \<and>
      obj_set st scope key v storage callback = Inr (CallSet mem scope key v callback) \<and>
      obj_keys st scope storage callback = Inr (CallKeys mem scope callback)) \<and>
   (reg_get (externalContexts st) ''default'' = Some d \<longrightarrow>
      obj_get st scope key (Func cb) callback = Inr (CallGet d scope key (Func cb)) \<and>
      obj_set st scope key v (Func cb) callback = Inr (CallSet d scope key v (Func cb)) \<and>
      obj_keys st scope (Func cb) callback = Inr (CallKeys d scope (Func cb))) \<and>
   (\<not> has_own (externalContexts st) ''default'' \<longrightarrow>
      obj_get st scope key (Func cb) callback = Inl (ContextError ''default'') \<and>
      obj_set st scope key v (Func cb) callback = Inl (ContextError ''default'') \<and>
      obj_keys st scope (Func cb) callback = Inl (ContextError ''default''))"
  by (auto simp: obj_get_def obj_set_def obj_keys_def getContextStorage_def backend_call_def
      has_own_def reg_get_def split: option.splits)

theorem scope_dispatch_witness:
  "obj_get running_plain ''n1'' ''k'' Undefined Undefined = Inr (CallGet 1 ''n1'' ''k'' Undefined) \<and>
   obj_keys running_plain ''n1'' (Func 7) Undefined = Inl (ContextError ''default'') \<and>
   obj_set running_file ''n1'' ''k'' (Str ''v'') (Func 7) Undefined
     = Inr (CallSet 2 ''n1'' ''k'' (Str ''v'') (Func 7))"
  using scope_dispatch [of Undefined Undefined running_plain 1 "''n1''" "''k''" "Str ''v''" 2 7]
    scope_dispatch [of Undefined Undefined running_file 1 "''n1''" "''k''" "Str ''v''" 2 7]
  by (simp add: running_plain_eval running_file_eval reg_get_def has_own_def)

text \<open>The claim as stated sends \<open>get(key, cb)\<close> to the fallback. In the runtime
  without \<open>contextStorage\<close> the fallback is registered, the scope of node \<open>n1\<close> has
  its \<open>get\<close> closure, and \<open>get("k", cb)\<close> throws.\<close>

theorem scope_dispatch_counterexample:
  "reg_get (externalContexts running_plain) ''_'' = Some 1 \<and>
   fst (getContext running_plain ''n1'' None) = Inr 2 \<and>
   heap (snd (getContext running_plain ''n1'' None)) 2 ''get'' = Some (Method MGet ''n1'') \<and>
   obj_get (snd (getContext running_plain ''n1'' None)) ''n1'' ''k'' (Func 7) Undefined
     = Inl (ContextError ''default'')"
  by (simp add: getContext.simps running_plain_eval reg_get_def createContext_def
      new_object_def set_prop_def attach_global_def obj_get_def getContextStorage_def
      has_own_def shadowed_def ctx_store_def split: prod.splits)

subsection \<open>load: the default alias and the external mark\<close>

lemma frame_construct:
  "construct env pluginName m st = (r, st1) \<Longrightarrow>
     heap st1 = heap st \<and> globalContext st1 = globalContext st \<and> next_ref st \<le> next_ref st1"
  by (auto simp: construct_def instantiate_def new_instance_def emit_def
      split: modspec.splits option.splits if_splits)

lemma frame_load_entries:
  "heap (snd (load_entries env plugins es st dflt)) = heap st \<and>
   globalContext (snd (load_entries env plugins es st dflt)) = globalContext st \<and>
   next_ref st \<le> next_ref (snd (load_entries env plugins es st dflt))"
proof (induction env plugins es st dflt rule: load_entries.induct)
  case (4 env plugins pluginName m rest st dflt)
  show ?case
  proof (cases "construct env pluginName m st")
    case (Pair r st1)
    then show ?thesis using 4 frame_construct [OF Pair]
      by (cases r) auto
  qed
qed auto

lemma frame_load_finish:
  "heap (snd (load_finish st ps)) = heap st \<and>
   globalContext (snd (load_finish st ps)) = globalContext st \<and>
   next_ref (snd (load_finish st ps)) = next_ref st"
  by (simp add: load_finish_def emit_def split: option.splits)

lemma frame_open_and_alias:
  "heap (snd (open_and_alias st dflt)) = heap st \<and>
   globalContext (snd (open_and_alias st dflt)) = globalContext st \<and>
   next_ref (snd (open_and_alias st dflt)) = next_ref st"
  by (simp add: open_and_alias_def frame_load_finish emit_def split: prod.splits option.splits)

lemma frame_load:
  "heap (snd (load env st)) = heap st \<and>
   globalContext (snd (load env st)) = globalContext st \<and>
   next_ref st \<le> next_ref (snd (load env st))"
proof (cases "settings st")
  case None
  then show ?thesis by (simp add: load_def)
next
  case (Some s)
  note s = this
  show ?thesis
  proof (cases "contextStorage s")
    case None
    with s show ?thesis by (simp add: load_def frame_load_finish)
  next
    case (Some plugins)
    obtain r st1 where l: "load_entries env plugins plugins st None = (r, st1)"
      by (cases "load_entries env plugins plugins st None")
    then have "heap st1 = heap st \<and> globalContext st1 = globalContext st \<and>
        next_ref st \<le> next_ref st1"
      using frame_load_entries [of env plugins plugins st None] by simp
    with l Some s show ?thesis
      by (cases r) (simp_all add: load_def frame_open_and_alias)
  qed
qed



















text \<open>
  The alias that names itself, \<open>contextStorage: { default: "default" }\<close>, is outside
  the statement above. Line 56 accepts it because \<open>default\<close> is a key of the
  configuration; no store is constructed under that name, so line 103 binds
  \<open>"default"\<close> to \<open>undefined\<close>. \<open>load\<close> resolves, the name \<open>"default"\<close> is registered
  and bound to nothing, \<open>getContextStorage\<close> returns \<open>undefined\<close> for it, and
  \<open>get(key, cb)\<close> on any scope throws a TypeError.
\<close>

lemma load_self_alias_unbound:
  "fst (load env_builtin (init module_state self_alias_settings)) = Inr (PromiseAll [Open 1]) \<and>
   externalContexts (snd (load env_builtin (init module_state self_alias_settings)))
     = [(''_'', Some 1), (''default'', None)] \<and>
   has_own (externalContexts (snd (load env_builtin (init module_state self_alias_settings))))
     ''default'' \<and>
   getContextStorage (snd (load env_builtin (init module_state self_alias_settings))) ''default''
     = Inr None \<and>
   obj_get (snd (load env_builtin (init module_state self_alias_settings)))
     ''n1'' ''k'' (Func 7) Undefined = Inl TypeError"
  by (simp add: self_alias_settings_def env_builtin_def model_defs)

text \<open>What \<open>load\<close> does to the mark in general: a \<open>load\<close> that resolves sets
  \<open>hasExternalContext\<close> exactly when \<open>contextStorage\<close> is present, whatever it
  lists.\<close>

lemma flag_construct:
  "construct env pluginName m st = (r, st1) \<Longrightarrow> hasExternalContext st1 = hasExternalContext st"
  by (auto simp: construct_def instantiate_def new_instance_def emit_def
      split: modspec.splits option.splits if_splits)

lemma flag_load_entries:
  "hasExternalContext (snd (load_entries env plugins es st dflt)) = hasExternalContext st"
proof (induction env plugins es st dflt rule: load_entries.induct)
  case (4 env plugins pluginName m rest st dflt)
  show ?case
  proof (cases "construct env pluginName m st")
    case (Pair r st1)
    then show ?thesis using 4 flag_construct [OF Pair]
      by (cases r) auto
  qed
qed auto

lemma call_all_nonempty:
  "call_all f reg = (es, True) \<Longrightarrow> reg \<noteq> [] \<Longrightarrow> es \<noteq> []"
  by (induction f reg rule: call_all.induct) (auto split: prod.splits)

lemma load_marks_external:
  assumes "settings st = Some s" and "load env st = (Inr p, st1)"
    and "reg_get (externalContexts st) ''_'' = Some mem"
  shows "hasExternalContext st1 = (hasExternalContext st \<or> contextStorage s \<noteq> None)"
proof (cases "contextStorage s")
  case None
  with assms show ?thesis
    by (auto simp: load_def load_finish_def emit_def)
next
  case (Some plugins)
  obtain r st0 where l0: "load_entries env plugins plugins st None = (r, st0)"
    by (cases "load_entries env plugins plugins st None")
  with assms(1,2) Some obtain d where
    l: "load_entries env plugins plugins st None = (Inr d, st0)" and
    o: "open_and_alias st0 d = (Inr p, st1)"
    by (cases r) (auto simp: load_def)
  from fallback_load_entries [of env plugins plugins st None] l assms(3)
  have "map_of (externalContexts st0) ''_'' \<noteq> None"
    by (auto simp: reg_get_def split: option.splits)
  then have ne: "externalContexts st0 \<noteq> []" by auto
  obtain es ok where c: "call_all Open (externalContexts st0) = (es, ok)"
    by (cases "call_all Open (externalContexts st0)")
  with o have ok: "ok" by (auto simp: open_and_alias_def split: if_splits)
  with c have "call_all Open (externalContexts st0) = (es, True)" by simp
  from call_all_nonempty [OF this ne] have "es \<noteq> []" .
  with o c ok have "hasExternalContext st1"
    by (auto simp: open_and_alias_def load_finish_def split: option.splits)
  with Some show ?thesis by simp
qed

text \<open>
  Claim C3, at \<open>contextStorage: {}\<close> and at a configuration whose only entry is
  \<open>"_"\<close>. The loop of line 94 runs whenever \<open>contextStorage\<close> is present and pushes
  the fallback's \<open>open()\<close>, so \<open>promises\<close> is not empty at line 107: only the
  fallback is registered and opened, and \<open>hasExternalContext\<close> is set all the same.
  Without \<open>contextStorage\<close> it stays unset.
\<close>

theorem load_empty_storage_marks_external:
  "fst (load env_builtin (init module_state empty_storage_settings)) = Inr (PromiseAll [Open 1]) \<and>
   externalContexts (snd (load env_builtin (init module_state empty_storage_settings)))
     = [(''_'', Some 1)] \<and>
   hasExternalContext (snd (load env_builtin (init module_state empty_storage_settings))) \<and>
   hasExternalContext (snd (load env_builtin (init module_state reserved_settings))) \<and>
   \<not> hasExternalContext (snd (load env_builtin (init module_state plain_settings)))"
  by (simp add: empty_storage_settings_def reserved_settings_def plain_settings_def
      env_builtin_def model_defs)

subsection \<open>The links of a node scope\<close>

lemma joined_inject:
  assumes "colon_free n" "colon_free n'" "n @ '':'' @ f = n' @ '':'' @ f'"
  shows "n = n' \<and> f = f'"
proof -
  have a: "node_part (n @ '':'' @ f) = n"
    by (rule node_part_joined) (use assms(1) in \<open>simp add: colon_free_def\<close>)
  have b: "node_part (n' @ '':'' @ f') = n'"
    by (rule node_part_joined) (use assms(2) in \<open>simp add: colon_free_def\<close>)
  from a b assms(3) have "n = n'" by metis
  with assms(3) show ?thesis by simp
qed

lemma joined_not_colon_free: "colon_free k \<Longrightarrow> k \<noteq> n @ '':'' @ f"
  by (auto simp: colon_free_def)

lemma joined_not_global: "n @ '':'' @ f \<noteq> ''global''"
proof -
  have "colon_free ''global''" by (simp add: colon_free_def)
  then show ?thesis by (metis joined_not_colon_free)
qed

lemma joined_not_special:
  "n @ '':'' @ f \<noteq> ''__proto__''" "n @ '':'' @ f \<noteq> ''hasOwnProperty''"
proof -
  have "colon_free ''__proto__''" "colon_free ''hasOwnProperty''"
    by (simp_all add: colon_free_def)
  then show "n @ '':'' @ f \<noteq> ''__proto__''" "n @ '':'' @ f \<noteq> ''hasOwnProperty''"
    by (metis joined_not_colon_free)+
qed

lemma plain_id_iff:
  "plain_id s = (s \<noteq> ''__proto__'' \<and> s \<noteq> ''hasOwnProperty'' \<and> colon_free s)"
  by (simp add: plain_id_def)

lemma shadowed_iff: "shadowed ctx = (map_of ctx ''hasOwnProperty'' \<noteq> None)"
  by (simp add: shadowed_def has_own_def)

text \<open>What a call that misses the cache does to the state.\<close>

lemma getContext_noflow_miss:
  assumes "\<not> shadowed (contexts st)" "map_of (contexts st) l = None" "l \<noteq> ''__proto__''"
  shows "fst (getContext st l None) = Inr (next_ref st)"
    and "map_of (contexts (snd (getContext st l None))) = (map_of (contexts st))(l \<mapsto> next_ref st)"
    and "next_ref (snd (getContext st l None)) = Suc (next_ref st)"
    and "globalContext (snd (getContext st l None)) = globalContext st"
    and "r \<noteq> next_ref st \<Longrightarrow> heap (snd (getContext st l None)) r = heap st r"
    and "heap (snd (getContext st l None)) (next_ref st) ''global''
           = map_option Ref (globalContext st)"
  using assms
  by (simp_all add: getContext.simps createContext_def new_object_def set_prop_def
      attach_global_def ctx_store_def update_conv' split: option.splits)

lemma getContext_flow_miss_hit:
  assumes "f \<noteq> []" "\<not> shadowed (contexts st)" "map_of (contexts st) (l @ '':'' @ f) = None"
    "map_of (contexts st) f = Some fl"
  shows "fst (getContext st l (Some f)) = Inr (next_ref st)"
    and "map_of (contexts (snd (getContext st l (Some f))))
           = (map_of (contexts st))(l @ '':'' @ f \<mapsto> next_ref st)"
    and "next_ref (snd (getContext st l (Some f))) = Suc (next_ref st)"
    and "globalContext (snd (getContext st l (Some f))) = globalContext st"
    and "r \<noteq> next_ref st \<Longrightarrow> heap (snd (getContext st l (Some f))) r = heap st r"
    and "heap (snd (getContext st l (Some f))) (next_ref st) ''global''
           = map_option Ref (globalContext st)"
    and "heap (snd (getContext st l (Some f))) (next_ref st) ''flow'' = Some (Ref fl)"
  using assms joined_not_special(1) [of l f]
  by (simp_all add: getContext.simps createContext_def new_object_def set_prop_def
      attach_global_def ctx_store_def update_conv' split: option.splits)

lemma getContext_flow_miss_miss:
  assumes "f \<noteq> []" "\<not> shadowed (contexts st)" "map_of (contexts st) (l @ '':'' @ f) = None"
    "map_of (contexts st) f = None" "f \<noteq> ''__proto__''"
  shows "fst (getContext st l (Some f)) = Inr (next_ref st)"
    and "map_of (contexts (snd (getContext st l (Some f))))
           = (map_of (contexts st))(f \<mapsto> Suc (next_ref st), l @ '':'' @ f \<mapsto> next_ref st)"
    and "next_ref (snd (getContext st l (Some f))) = Suc (Suc (next_ref st))"
    and "globalContext (snd (getContext st l (Some f))) = globalContext st"
    and "r \<noteq> next_ref st \<Longrightarrow> r \<noteq> Suc (next_ref st) \<Longrightarrow>
           heap (snd (getContext st l (Some f))) r = heap st r"
    and "heap (snd (getContext st l (Some f))) (next_ref st) ''global''
           = map_option Ref (globalContext st)"
    and "heap (snd (getContext st l (Some f))) (next_ref st) ''flow''
           = Some (Ref (Suc (next_ref st)))"
  using assms joined_not_special(1) [of l f]
  by (simp_all add: getContext.simps createContext_def new_object_def set_prop_def
      attach_global_def ctx_store_def update_conv' split: option.splits)

text \<open>Each operation keeps the invariant.\<close>

lemma links_ok_noflow:
  assumes ok: "links_ok st" and l: "plain_id l"
  shows "links_ok (snd (getContext st l None))"
proof (cases "map_of (contexts st) l")
  case (Some c)
  from ok have "\<not> shadowed (contexts st)" by (simp add: links_ok_def)
  with Some have "getContext st l None = (Inr c, st)"
    using getContext_hit [of st l None c] by (simp add: context_id_def)
  then show ?thesis using ok by simp
next
  case None
  from ok have ns: "\<not> shadowed (contexts st)" by (simp add: links_ok_def)
  from l have lp: "l \<noteq> ''__proto__''" "l \<noteq> ''hasOwnProperty''" "colon_free l"
    by (simp_all add: plain_id_iff)
  note m = getContext_noflow_miss [OF ns None lp(1)]
  let ?s = "snd (getContext st l None)"
  have fresh: "\<And>k c. map_of (contexts st) k = Some c \<Longrightarrow> c < next_ref st"
    using ok by (simp add: links_ok_def)
  have a: "\<forall>k c. map_of (contexts ?s) k = Some c \<longrightarrow> c < next_ref ?s"
    using fresh by (auto simp: m(2,3) less_Suc_eq)
  have b: "\<exists>g. globalContext ?s = Some g"
    using ok by (auto simp: links_ok_def m(4))
  have s: "\<not> shadowed (contexts ?s)"
    using ns lp(2) by (simp add: shadowed_iff m(2))
  have c: "\<forall>n f c. colon_free n \<and> f \<noteq> [] \<and> map_of (contexts ?s) (n @ '':'' @ f) = Some c \<longrightarrow>
         (\<exists>fl. map_of (contexts ?s) f = Some fl \<and> heap ?s c ''flow'' = Some (Ref fl)) \<and>
         heap ?s c ''global'' = map_option Ref (globalContext ?s)"
  proof (intro allI impI)
    fix n f c
    assume h: "colon_free n \<and> f \<noteq> [] \<and> map_of (contexts ?s) (n @ '':'' @ f) = Some c"
    have ne: "n @ '':'' @ f \<noteq> l" using lp(3) joined_not_colon_free by metis
    with h have old: "map_of (contexts st) (n @ '':'' @ f) = Some c" by (simp add: m(2))
    then have "c < next_ref st" by (rule fresh)
    then have hp: "heap ?s c = heap st c" by (simp add: m(5))
    from ok h old obtain fl where
      fl: "map_of (contexts st) f = Some fl" "heap st c ''flow'' = Some (Ref fl)"
        "heap st c ''global'' = map_option Ref (globalContext st)"
      unfolding links_ok_def by blast
    from fl(1) None have "f \<noteq> l" by auto
    with fl hp show "(\<exists>fl. map_of (contexts ?s) f = Some fl \<and> heap ?s c ''flow'' = Some (Ref fl)) \<and>
         heap ?s c ''global'' = map_option Ref (globalContext ?s)"
      by (simp add: m(2,4))
  qed
  from a b s c show ?thesis unfolding links_ok_def by blast
qed

lemma links_ok_flow:
  assumes ok: "links_ok st" and l: "plain_id l" and f: "plain_id f" and fne: "f \<noteq> []"
  shows "links_ok (snd (getContext st l (Some f)))"
proof (cases "map_of (contexts st) (l @ '':'' @ f)")
  case (Some c)
  from ok have "\<not> shadowed (contexts st)" by (simp add: links_ok_def)
  with Some have "getContext st l (Some f) = (Inr c, st)"
    using getContext_hit [of st l "Some f" c] fne by (simp add: context_id_def)
  then show ?thesis using ok by simp
next
  case None
  let ?s = "snd (getContext st l (Some f))"
  from ok have ns: "\<not> shadowed (contexts st)" by (simp add: links_ok_def)
  from l have lp: "colon_free l" by (simp add: plain_id_iff)
  from f have fp: "f \<noteq> ''__proto__''" "f \<noteq> ''hasOwnProperty''" "colon_free f"
    by (simp_all add: plain_id_iff)
  have fresh: "\<And>k c. map_of (contexts st) k = Some c \<Longrightarrow> c < next_ref st"
    using ok by (simp add: links_ok_def)
  have lf: "l @ '':'' @ f \<noteq> f" by (metis fp(3) joined_not_colon_free)
  have lh: "l @ '':'' @ f \<noteq> ''hasOwnProperty''" by (rule joined_not_special(2))
  show ?thesis
  proof (cases "map_of (contexts st) f")
    case (Some fl0)
    note m = getContext_flow_miss_hit [OF fne ns None Some]
    have a: "\<forall>k c. map_of (contexts ?s) k = Some c \<longrightarrow> c < next_ref ?s"
      using fresh by (auto simp: m(2,3) less_Suc_eq)
    have b: "\<exists>g. globalContext ?s = Some g"
      using ok by (auto simp: links_ok_def m(4))
    have s: "\<not> shadowed (contexts ?s)"
      using ns lh unfolding shadowed_iff m(2) by simp
    have c: "\<forall>n g c. colon_free n \<and> g \<noteq> [] \<and> map_of (contexts ?s) (n @ '':'' @ g) = Some c \<longrightarrow>
         (\<exists>fl. map_of (contexts ?s) g = Some fl \<and> heap ?s c ''flow'' = Some (Ref fl)) \<and>
         heap ?s c ''global'' = map_option Ref (globalContext ?s)"
    proof (intro allI impI)
      fix n g c
      assume h: "colon_free n \<and> g \<noteq> [] \<and> map_of (contexts ?s) (n @ '':'' @ g) = Some c"
      show "(\<exists>fl. map_of (contexts ?s) g = Some fl \<and> heap ?s c ''flow'' = Some (Ref fl)) \<and>
         heap ?s c ''global'' = map_option Ref (globalContext ?s)"
      proof (cases "n @ '':'' @ g = l @ '':'' @ f")
        case True
        with h lp have "n = l \<and> g = f" using joined_inject by blast
        moreover from True h have "c = next_ref st" unfolding m(2) by simp
        ultimately show ?thesis using Some lf unfolding m(2) by (simp add: m(4,6,7))
      next
        case False
        with h have old: "map_of (contexts st) (n @ '':'' @ g) = Some c"
          unfolding m(2) by simp
        then have "c < next_ref st" by (rule fresh)
        then have hp: "heap ?s c = heap st c" by (simp add: m(5))
        from ok h old obtain fl where
          fl: "map_of (contexts st) g = Some fl" "heap st c ''flow'' = Some (Ref fl)"
            "heap st c ''global'' = map_option Ref (globalContext st)"
          unfolding links_ok_def by blast
        from fl(1) None have "g \<noteq> l @ '':'' @ f" by auto
        with fl hp show ?thesis unfolding m(2) by (simp add: m(4))
      qed
    qed
    from a b s c show ?thesis unfolding links_ok_def by blast
  next
    case None2: None
    note m = getContext_flow_miss_miss [OF fne ns None None2 fp(1)]
    have a: "\<forall>k c. map_of (contexts ?s) k = Some c \<longrightarrow> c < next_ref ?s"
      using fresh by (auto simp: m(2,3) less_Suc_eq)
    have b: "\<exists>g. globalContext ?s = Some g"
      using ok by (auto simp: links_ok_def m(4))
    have s: "\<not> shadowed (contexts ?s)"
      using ns lh fp(2) unfolding shadowed_iff m(2) by simp
    have c: "\<forall>n g c. colon_free n \<and> g \<noteq> [] \<and> map_of (contexts ?s) (n @ '':'' @ g) = Some c \<longrightarrow>
         (\<exists>fl. map_of (contexts ?s) g = Some fl \<and> heap ?s c ''flow'' = Some (Ref fl)) \<and>
         heap ?s c ''global'' = map_option Ref (globalContext ?s)"
    proof (intro allI impI)
      fix n g c
      assume h: "colon_free n \<and> g \<noteq> [] \<and> map_of (contexts ?s) (n @ '':'' @ g) = Some c"
      have nf: "n @ '':'' @ g \<noteq> f" by (metis fp(3) joined_not_colon_free)
      show "(\<exists>fl. map_of (contexts ?s) g = Some fl \<and> heap ?s c ''flow'' = Some (Ref fl)) \<and>
         heap ?s c ''global'' = map_option Ref (globalContext ?s)"
      proof (cases "n @ '':'' @ g = l @ '':'' @ f")
        case True
        with h lp have "n = l \<and> g = f" using joined_inject by blast
        moreover from True h have "c = next_ref st" unfolding m(2) by simp
        ultimately show ?thesis using lf unfolding m(2) by (simp add: m(4,6,7))
      next
        case False
        with h nf have old: "map_of (contexts st) (n @ '':'' @ g) = Some c"
          unfolding m(2) by simp
        then have "c < next_ref st" by (rule fresh)
        then have hp: "heap ?s c = heap st c" by (simp add: m(5))
        from ok h old obtain fl where
          fl: "map_of (contexts st) g = Some fl" "heap st c ''flow'' = Some (Ref fl)"
            "heap st c ''global'' = map_option Ref (globalContext st)"
          unfolding links_ok_def by blast
        from fl(1) None None2 have "g \<noteq> l @ '':'' @ f" "g \<noteq> f" by auto
        with fl hp show ?thesis unfolding m(2) by (simp add: m(4))
      qed
    qed
    from a b s c show ?thesis unfolding links_ok_def by blast
  qed
qed

lemma links_ok_load:
  assumes "links_ok st"
  shows "links_ok (snd (load env st))"
proof -
  let ?s = "snd (load env st)"
  have h: "heap ?s = heap st" "globalContext ?s = globalContext st"
    "next_ref st \<le> next_ref ?s" "contexts ?s = contexts st"
    using frame_load [of env st] contexts_load [of env st] by simp_all
  have "\<forall>k c. map_of (contexts st) k = Some c \<longrightarrow> c < next_ref ?s"
  proof (intro allI impI)
    fix k c
    assume "map_of (contexts st) k = Some c"
    with assms have "c < next_ref st" by (simp add: links_ok_def)
    with h(3) show "c < next_ref ?s" by simp
  qed
  with assms show ?thesis unfolding links_ok_def h(1,2,4) by blast
qed

lemma links_ok_init:
  assumes "contexts st = []"
    and "case functionGlobalContext s of None \<Rightarrow> True | Some g \<Rightarrow> g < next_ref st"
  shows "links_ok (init st s)"
proof -
  have k: "\<And>n f. n @ '':'' @ f \<noteq> ''global''"
    by (rule joined_not_global)
  from assms have c: "\<exists>g. contexts (init st s) = [(''global'', g)] \<and> g < next_ref (init st s) \<and>
      globalContext (init st s) = Some g"
    by (cases "functionGlobalContext s")
      (simp_all add: init_def new_object_def new_instance_def emit_def createContext_def
        set_prop_def)
  then obtain g where g: "contexts (init st s) = [(''global'', g)]" "g < next_ref (init st s)"
      "globalContext (init st s) = Some g" by blast
  show ?thesis
    unfolding links_ok_def shadowed_iff g(1) using g(2,3) k by (auto split: if_splits)
qed

lemma links_ok_delete:
  assumes "links_ok st" "\<forall>n. map_of (contexts st) (n @ '':'' @ context_id ident flowId) = None"
  shows "links_ok (snd (deleteContext st ident flowId))"
proof (cases "hasExternalContext st")
  case True
  with assms show ?thesis by (simp add: deleteContext_def)
next
  case False
  let ?k = "context_id ident flowId"
  let ?s = "snd (deleteContext st ident flowId)"
  from False have q: "contexts ?s = AList.delete ?k (contexts st)"
    by (simp add: deleteContext_def emit_def split: option.splits)
  from False have p: "map_of (contexts ?s) = (map_of (contexts st))(?k := None)"
      "heap ?s = heap st" "globalContext ?s = globalContext st" "next_ref ?s = next_ref st"
    by (simp_all add: deleteContext_def emit_def delete_conv' split: option.splits)
  have c: "\<forall>n f c. colon_free n \<and> f \<noteq> [] \<and> map_of (contexts ?s) (n @ '':'' @ f) = Some c \<longrightarrow>
         (\<exists>fl. map_of (contexts ?s) f = Some fl \<and> heap ?s c ''flow'' = Some (Ref fl)) \<and>
         heap ?s c ''global'' = map_option Ref (globalContext ?s)"
  proof (intro allI impI)
    fix n f c
    assume h: "colon_free n \<and> f \<noteq> [] \<and> map_of (contexts ?s) (n @ '':'' @ f) = Some c"
    then have old: "map_of (contexts st) (n @ '':'' @ f) = Some c"
      unfolding p(1) by (simp split: if_splits)
    with assms(1) h obtain fl where
      fl: "map_of (contexts st) f = Some fl" "heap st c ''flow'' = Some (Ref fl)"
        "heap st c ''global'' = map_option Ref (globalContext st)"
      unfolding links_ok_def by blast
    from old assms(2) have "f \<noteq> ?k" by auto
    with fl show "(\<exists>fl. map_of (contexts ?s) f = Some fl \<and> heap ?s c ''flow'' = Some (Ref fl)) \<and>
         heap ?s c ''global'' = map_option Ref (globalContext ?s)"
      unfolding p by simp
  qed
  have "\<forall>k c. map_of (contexts ?s) k = Some c \<longrightarrow> c < next_ref ?s"
    using assms(1) unfolding p links_ok_def by (auto split: if_splits)
  moreover have "\<exists>g. globalContext ?s = Some g"
    using assms(1) by (auto simp: links_ok_def p)
  moreover have "\<not> shadowed (contexts ?s)"
    unfolding q using assms(1) by (intro shadowed_delete) (simp add: links_ok_def)
  ultimately show ?thesis using c unfolding links_ok_def by blast
qed

lemma frame_clean:
  "heap (snd (clean st allNodes)) = heap st"
  "globalContext (snd (clean st allNodes)) = globalContext st"
  "next_ref (snd (clean st allNodes)) = next_ref st"
  by (simp_all add: clean_def emit_def split: prod.splits option.splits)

lemma contexts_clean:
  assumes "\<not> shadowed (contexts st)"
  shows "contexts (snd (clean st allNodes)) = contexts st \<or>
         contexts (snd (clean st allNodes))
           = filter (\<lambda>kv. fst kv = ''global'' \<or> node_part (fst kv) \<in> set allNodes) (contexts st)"
proof (cases "''hasOwnProperty'' \<in> set allNodes")
  case True
  then have "snd (sweep_loop allNodes (contexts st) (contexts st)) = contexts st"
    by (simp add: sweep_loop_hazard)
  then show ?thesis
    by (auto simp: clean_def emit_def split: prod.splits option.splits)
next
  case False
  from sweep_loop_all [OF False assms] show ?thesis
    by (auto simp: clean_def emit_def split: prod.splits option.splits)
qed

lemma links_ok_clean:
  assumes "links_ok st"
    "\<forall>n f. colon_free n \<and> f \<noteq> [] \<and> map_of (contexts st) (n @ '':'' @ f) \<noteq> None \<and>
           n \<in> set allNodes \<longrightarrow> f = ''global'' \<or> node_part f \<in> set allNodes"
  shows "links_ok (snd (clean st allNodes))"
proof -
  let ?s = "snd (clean st allNodes)"
  note fr = frame_clean [of st allNodes]
  from assms(1) have ns: "\<not> shadowed (contexts st)" by (simp add: links_ok_def)
  from contexts_clean [OF ns, of allNodes] show ?thesis
  proof
    assume e: "contexts ?s = contexts st"
    from assms(1) show ?thesis unfolding links_ok_def fr e by blast
  next
    assume "contexts ?s
       = filter (\<lambda>kv. fst kv = ''global'' \<or> node_part (fst kv) \<in> set allNodes) (contexts st)"
    then have p: "\<And>k. map_of (contexts ?s) k
       = (if k = ''global'' \<or> node_part k \<in> set allNodes then map_of (contexts st) k else None)"
      using map_of_filter_key [where P = "\<lambda>k. k = ''global'' \<or> node_part k \<in> set allNodes"
          and al = "contexts st"]
      by simp
    have c: "\<forall>n f c. colon_free n \<and> f \<noteq> [] \<and> map_of (contexts ?s) (n @ '':'' @ f) = Some c \<longrightarrow>
         (\<exists>fl. map_of (contexts ?s) f = Some fl \<and> heap ?s c ''flow'' = Some (Ref fl)) \<and>
         heap ?s c ''global'' = map_option Ref (globalContext ?s)"
    proof (intro allI impI)
      fix n f c
      assume h: "colon_free n \<and> f \<noteq> [] \<and> map_of (contexts ?s) (n @ '':'' @ f) = Some c"
      then have kept: "n @ '':'' @ f = ''global'' \<or> node_part (n @ '':'' @ f) \<in> set allNodes"
        and old: "map_of (contexts st) (n @ '':'' @ f) = Some c"
        unfolding p by (simp_all split: if_splits)
      have "node_part (n @ '':'' @ f) = n"
        by (rule node_part_joined) (use h in \<open>simp add: colon_free_def\<close>)
      with kept joined_not_global [of n f] have "n \<in> set allNodes" by simp
      with assms(2) h old have fk: "f = ''global'' \<or> node_part f \<in> set allNodes" by blast
      from assms(1) h old obtain fl where
        fl: "map_of (contexts st) f = Some fl" "heap st c ''flow'' = Some (Ref fl)"
          "heap st c ''global'' = map_option Ref (globalContext st)"
        unfolding links_ok_def by blast
      with fk show "(\<exists>fl. map_of (contexts ?s) f = Some fl \<and> heap ?s c ''flow'' = Some (Ref fl)) \<and>
           heap ?s c ''global'' = map_option Ref (globalContext ?s)"
        unfolding p fr by simp
    qed
    have "\<forall>k c. map_of (contexts ?s) k = Some c \<longrightarrow> c < next_ref ?s"
      using assms(1) unfolding p fr links_ok_def by (auto split: if_splits)
    moreover have "\<exists>g. globalContext ?s = Some g"
      using assms(1) by (auto simp: links_ok_def fr)
    moreover have "\<not> shadowed (contexts ?s)"
      using ns unfolding shadowed_iff p by simp
    ultimately show ?thesis using c unfolding links_ok_def by blast
  qed
qed

lemma flows_kept_links_ok: "flows_kept st \<Longrightarrow> links_ok st"
proof (induction rule: flows_kept.induct)
  case (boot st s)
  then show ?case by (rule links_ok_init)
next
  case (loaded st env)
  then show ?case by (simp add: links_ok_load)
next
  case (scoped st localId flowId)
  show ?case
  proof (cases flowId)
    case None
    with scoped show ?thesis by (simp add: links_ok_noflow)
  next
    case (Some f)
    show ?thesis
    proof (cases "f = []")
      case True
      with Some scoped show ?thesis by (simp add: links_ok_noflow getContext_empty_flow)
    next
      case False
      with Some scoped show ?thesis by (simp add: links_ok_flow)
    qed
  qed
next
  case (deleted st ident flowId)
  then show ?case by (simp add: links_ok_delete)
next
  case (cleaned st allNodes)
  then show ?case by (simp add: links_ok_clean)
qed

lemma flows_kept_running_plain: "flows_kept running_plain"
  unfolding running_plain_def
  by (rule flows_kept.loaded, rule flows_kept.boot)
    (simp_all add: module_state_def plain_settings_def)

text \<open>
  Claim C7, as the code has it. Take a state reached from one \<open>init\<close> on the empty
  cache of the freshly loaded module (no second \<open>init\<close>) by \<open>load\<close>, by \<open>getContext\<close>
  for identifiers that contain no \<open>":"\<close> and are neither \<open>"__proto__"\<close> nor
  \<open>"hasOwnProperty"\<close>, by a \<open>deleteContext\<close> that does not remove the flow of a cached
  node scope, and by a sweep that keeps, with every node scope it keeps, the flow of
  that scope. For all such identifiers \<open>nodeId\<close> and \<open>flowId\<close>, with \<open>flowId\<close> not
  empty, \<open>getContext(nodeId, flowId)\<close> returns a scope whose \<open>flow\<close> field is the object
  \<open>getContext(flowId)\<close> returns (which is cached: that call changes nothing) and whose
  \<open>global\<close> field is the global scope.
\<close>

theorem node_scope_links:
  assumes "flows_kept st" "plain_id nodeId" "plain_id flowId" "flowId \<noteq> []"
  shows "\<exists>c fl st1. getContext st nodeId (Some flowId) = (Inr c, st1) \<and>
           getContext st1 flowId None = (Inr fl, st1) \<and>
           heap st1 c ''flow'' = Some (Ref fl) \<and>
           (\<exists>g. globalContext st1 = Some g \<and> heap st1 c ''global'' = Some (Ref g))"
proof -
  have ok0: "links_ok st" using assms(1) by (rule flows_kept_links_ok)
  then have ns0: "\<not> shadowed (contexts st)" by (simp add: links_ok_def)
  obtain c where c: "fst (getContext st nodeId (Some flowId)) = Inr c"
    using getContext_returns [OF ns0, of nodeId "Some flowId"] by blast
  define st1 where "st1 = snd (getContext st nodeId (Some flowId))"
  from c have g: "getContext st nodeId (Some flowId) = (Inr c, st1)"
    unfolding st1_def by (metis prod.collapse)
  have ok: "links_ok st1"
    unfolding st1_def using ok0 assms(2,3,4) by (rule links_ok_flow)
  then have ns: "\<not> shadowed (contexts st1)" by (simp add: links_ok_def)
  have k: "context_id nodeId (Some flowId) = nodeId @ '':'' @ flowId"
    using assms(4) by (simp add: context_id_def)
  have "context_id nodeId (Some flowId) \<noteq> ''__proto__''"
    unfolding k by (rule joined_not_special(1))
  with g have "map_of (contexts st1) (context_id nodeId (Some flowId)) = Some c"
    by (rule getContext_caches)
  then have cached: "map_of (contexts st1) (nodeId @ '':'' @ flowId) = Some c"
    unfolding k .
  from assms(2) have "colon_free nodeId" by (simp add: plain_id_iff)
  with ok assms(4) cached obtain fl where
    fl: "map_of (contexts st1) flowId = Some fl" "heap st1 c ''flow'' = Some (Ref fl)"
      "heap st1 c ''global'' = map_option Ref (globalContext st1)"
    unfolding links_ok_def by blast
  from fl(1) have "map_of (contexts st1) (context_id flowId None) = Some fl"
    by (simp add: context_id_def)
  with ns have h: "getContext st1 flowId None = (Inr fl, st1)"
    by (rule getContext_hit)
  from ok obtain gl where "globalContext st1 = Some gl" unfolding links_ok_def by blast
  with fl(3) have "\<exists>g. globalContext st1 = Some g \<and> heap st1 c ''global'' = Some (Ref g)"
    by simp
  with g h fl(2) show ?thesis by blast
qed

theorem node_scope_links_witness:
  "flows_kept running_plain \<and> plain_id ''n1'' \<and> plain_id ''f1'' \<and>
   fst (getContext running_plain ''n1'' (Some ''f1'')) = Inr 2 \<and>
   getContext (snd (getContext running_plain ''n1'' (Some ''f1''))) ''f1'' None
     = (Inr 3, snd (getContext running_plain ''n1'' (Some ''f1''))) \<and>
   heap (snd (getContext running_plain ''n1'' (Some ''f1''))) 2 ''flow'' = Some (Ref 3) \<and>
   globalContext (snd (getContext running_plain ''n1'' (Some ''f1''))) = Some 0 \<and>
   heap (snd (getContext running_plain ''n1'' (Some ''f1''))) 2 ''global'' = Some (Ref 0)"
proof -
  have p: "plain_id ''n1''" "plain_id ''f1''" by (simp_all add: plain_id_def colon_free_def)
  have ne: "''f1'' \<noteq> []" by simp
  from node_scope_links [OF flows_kept_running_plain p ne]
  obtain c fl st1 where
    r: "getContext running_plain ''n1'' (Some ''f1'') = (Inr c, st1)"
      "getContext st1 ''f1'' None = (Inr fl, st1)"
      "heap st1 c ''flow'' = Some (Ref fl)"
    by blast
  from r(1) have e: "c = 2" "st1 = snd (getContext running_plain ''n1'' (Some ''f1''))"
    using first_scope_eval(1) by simp_all
  from r(3) have "fl = 3" unfolding e using first_scope_eval(2) by simp
  with r(2) have "getContext (snd (getContext running_plain ''n1'' (Some ''f1''))) ''f1'' None
     = (Inr 3, snd (getContext running_plain ''n1'' (Some ''f1'')))"
    unfolding e by simp
  then show ?thesis
    using flows_kept_running_plain p by (simp add: first_scope_eval)
qed

lemma swept_flow_eval:
  "contexts swept_flow = [(''global'', 0), (''n1:f1'', 2)]"
  "heap swept_flow 2 ''flow'' = Some (Ref 3)"
  "next_ref swept_flow = 4"
  "globalContext swept_flow = Some 0"
  by (simp_all add: swept_flow_def clean_def first_scope_eval emit_def node_part_def
      shadowed_def has_own_def split: prod.splits)

text \<open>The claim as stated covers the states after any sweep. After the sweep that
  keeps \<open>n1\<close> and drops its flow \<open>f1\<close>, \<open>getContext("n1", "f1")\<close> still returns the
  cached object 2, whose \<open>flow\<close> field is the old flow scope 3, while
  \<open>getContext("f1")\<close> makes a new object 4.\<close>

theorem node_scope_links_counterexample:
  "getContext swept_flow ''n1'' (Some ''f1'') = (Inr 2, swept_flow) \<and>
   heap swept_flow 2 ''flow'' = Some (Ref 3) \<and>
   fst (getContext swept_flow ''f1'' None) = Inr 4"
  by (simp add: getContext.simps swept_flow_eval createContext_def new_object_def
      set_prop_def attach_global_def shadowed_def has_own_def ctx_store_def
      split: prod.splits)

text \<open>A second \<open>init\<close> replaces the global scope and leaves the cache as it is: the
  node scope cached before it keeps the old global scope 0 in its \<open>global\<close> field,
  while the global scope is now the object 4.\<close>

lemma reinitialised_eval:
  "contexts reinitialised = [(''global'', 4), (''f1'', 3), (''n1:f1'', 2)]"
  "heap reinitialised 2 ''global'' = Some (Ref 0)"
  "globalContext reinitialised = Some 4"
  by (simp_all add: reinitialised_def init_def first_scope_eval createContext_def
      new_object_def new_instance_def set_prop_def emit_def plain_settings_def
      split: prod.splits)

lemma second_init_keeps_old_global:
  "getContext reinitialised ''n1'' (Some ''f1'') = (Inr 2, reinitialised) \<and>
   heap reinitialised 2 ''global'' = Some (Ref 0) \<and>
   globalContext reinitialised = Some 4"
proof -
  have "\<not> shadowed (contexts reinitialised)"
    by (simp add: reinitialised_eval shadowed_def has_own_def)
  moreover have "map_of (contexts reinitialised) (context_id ''n1'' (Some ''f1'')) = Some 2"
    by (simp add: reinitialised_eval context_id_def)
  ultimately have "getContext reinitialised ''n1'' (Some ''f1'') = (Inr 2, reinitialised)"
    by (rule getContext_hit)
  then show ?thesis by (simp add: reinitialised_eval)
qed

end
